theory Spec2Isabelle
  imports Complex_Main
begin

section \<open>Numbers\<close>

text \<open>
  The program computes with JavaScript numbers, that is with IEEE 754 binary64 values. A
  number is modelled as the real it denotes, and every addition, subtraction, multiplication
  and division of the source is followed by \<open>fl\<close>, the rounding of the exact result to the
  nearest binary64 value, ties to the even significand, with gradual underflow below
  \<open>2 powi - 1022\<close>. \<open>is_double\<close> holds of the reals that are binary64 values.

  Results beyond the largest binary64 value, \<open>NaN\<close> and the infinities have no counterpart
  here: the definitions are the program as long as every result is a finite number, which
  excludes a division or remainder by zero.

  \<open>Math.floor\<close>, \<open>Math.min\<close>, \<open>Math.max\<close>, \<open>Math.abs\<close> and the comparisons are
  exact. The remainder operator \<open>a % b\<close> truncates the quotient towards zero, so its
  result has the sign of the dividend; it is exact as well (the exact remainder of two
  binary64 values is a binary64 value, \<open>is_double_js_rem\<close> below). \<open>Math.pow\<close> is taken
  as the correctly rounded power.
\<close>

definition round_even :: "real \<Rightarrow> int" where
  "round_even r =
     (if r - of_int \<lfloor>r\<rfloor> < 1 / 2 then \<lfloor>r\<rfloor>
      else if 1 / 2 < r - of_int \<lfloor>r\<rfloor> then \<lfloor>r\<rfloor> + 1
      else if even \<lfloor>r\<rfloor> then \<lfloor>r\<rfloor> else \<lfloor>r\<rfloor> + 1)"

definition binade :: "real \<Rightarrow> int" where
  "binade x = (if x = 0 then - 1022 else max \<lfloor>log 2 \<bar>x\<bar>\<rfloor> (- 1022))"

definition fl :: "real \<Rightarrow> real" where
  "fl x = of_int (round_even (x / 2 powi (binade x - 52))) * 2 powi (binade x - 52)"

definition is_double :: "real \<Rightarrow> bool" where
  "is_double x = (\<exists>m e. x = of_int m * 2 powi e \<and> \<bar>m\<bar> < 2 ^ 53 \<and> - 1074 \<le> e)"

text \<open>
  The error of one rounding is at most \<open>roundingBound\<close> of the exact result
  (\<open>fl_roundingBound\<close> below): half a unit in the last place of a normal number, and
  half the spacing of the subnormal numbers.
\<close>

definition roundingBound :: "real \<Rightarrow> real" where
  "roundingBound x = \<bar>x\<bar> / 2 ^ 53 + 2 powi (- 1075)"

definition js_trunc :: "real \<Rightarrow> int" where
  "js_trunc x = (if x < 0 then \<lceil>x\<rceil> else \<lfloor>x\<rfloor>)"

definition js_rem :: "real \<Rightarrow> real \<Rightarrow> real" where
  "js_rem a b = a - b * of_int (js_trunc (a / b))"

definition js_pow :: "real \<Rightarrow> nat \<Rightarrow> real" where
  "js_pow b n = fl (b ^ n)"

section \<open>Data model\<close>

text \<open>
  One entry of \<open>player.blackHole\<close>: the saved fields of a black hole. The upgrade counts
  start at 0 and only \<open>incrementAmount\<close> changes them, so they are naturals;
  \<open>activations\<close> only ever receives whole numbers and is an integer here (exactly what the
  program holds as long as the count stays below \<open>2 ^ 53\<close>).
\<close>

record black_hole_data =
  intervalUpgrades :: nat
  powerUpgrades :: nat
  durationUpgrades :: nat
  phase :: real
  active :: bool
  activations :: int
  unlocked :: bool

text \<open>
  \<open>BlackHoleUpgradeState\<close>: the configuration the constructor receives. \<open>initialCost\<close>
  is \<open>None\<close> where the source computes \<open>NaN\<close> (a multiplier read beyond the end of
  \<open>wormholeCostMultipliers\<close>). The closures \<open>getAmount\<close> and \<open>setAmount\<close> of the three
  upgrades read and write the fields \<open>intervalUpgrades\<close>, \<open>powerUpgrades\<close> and
  \<open>durationUpgrades\<close> of \<open>_data\<close>: the getters below read these fields.
\<close>

record BlackHoleUpgradeState =
  calculateValue :: "nat \<Rightarrow> real"
  initialCost :: "real option"
  costMult :: real

record BlackHoleState =
  id_bh :: nat
  intervalUpgrade :: BlackHoleUpgradeState
  powerUpgrade :: BlackHoleUpgradeState
  durationUpgrade :: BlackHoleUpgradeState

definition wormholeCostMultipliers :: "real list" where
  "wormholeCostMultipliers = [1, 1000, fl (10 ^ 35)]"

definition costMultiplierAt :: "nat \<Rightarrow> real option" where
  "costMultiplierAt i =
     (if i < length wormholeCostMultipliers then Some (wormholeCostMultipliers ! i) else None)"

text \<open>
  The constructor of \<open>BlackHoleState\<close>. It contains no check and no \<open>throw\<close>: it returns
  a black hole for every \<open>id\<close>. The literals \<open>0.8\<close>, \<open>1.35\<close>, \<open>1.3\<close> and \<open>3.5\<close> are
  the binary64 values nearest to them.
\<close>

definition BlackHoleState_new :: "nat \<Rightarrow> BlackHoleState" where
  "BlackHoleState_new i =
     \<lparr> id_bh = i + 1,
       intervalUpgrade =
         \<lparr> calculateValue =
             (\<lambda>amount. fl (fl (3600 / js_pow 10 i) * js_pow (fl (8 / 10)) amount)),
           initialCost = map_option (\<lambda>m. fl (15 * m)) (costMultiplierAt i),
           costMult = fl (35 / 10) \<rparr>,
       powerUpgrade =
         \<lparr> calculateValue =
             (\<lambda>amount. fl (fl (180 / js_pow 2 i) * js_pow (fl (135 / 100)) amount)),
           initialCost = map_option (\<lambda>m. fl (20 * m)) (costMultiplierAt i),
           costMult = 2 \<rparr>,
       durationUpgrade =
         \<lparr> calculateValue =
             (\<lambda>amount. fl (fl (10 - fl (real i * 3)) * js_pow (fl (13 / 10)) amount)),
           initialCost = map_option (\<lambda>m. fl (10 * m)) (costMultiplierAt i),
           costMult = 4 \<rparr> \<rparr>"

text \<open>
  The getters of a black hole, reading its entry \<open>d\<close> of \<open>player.blackHole\<close>. The
  source caches each value in a \<open>Lazy\<close>, whose class is not part of the sources; the model
  computes \<open>calculateValue(getAmount())\<close> afresh, as a cache that is invalidated on every
  purchase does.
\<close>

definition interval :: "BlackHoleState \<Rightarrow> black_hole_data \<Rightarrow> real" where
  "interval bh d = calculateValue (intervalUpgrade bh) (intervalUpgrades d)"

definition power_bh :: "BlackHoleState \<Rightarrow> black_hole_data \<Rightarrow> real" where
  "power_bh bh d = calculateValue (powerUpgrade bh) (powerUpgrades d)"

definition duration :: "BlackHoleState \<Rightarrow> black_hole_data \<Rightarrow> real" where
  "duration bh d = calculateValue (durationUpgrade bh) (durationUpgrades d)"

definition isCharged :: "black_hole_data \<Rightarrow> bool" where
  "isCharged d = active d"

definition cycleLength :: "BlackHoleState \<Rightarrow> black_hole_data \<Rightarrow> real" where
  "cycleLength bh d = fl (interval bh d + duration bh d)"

section \<open>Phase update\<close>

text \<open>
  \<open>updatePhase\<close> mutates the entry and may notify the user interface. The model returns
  the new entry and the trace of what the call did besides: every assignment to
  \<open>_data.active\<close> and every notification, in program order. \<open>showBH\<close> is
  \<open>GameUI.notify.showBlackHoles\<close>.
\<close>

datatype effect = SetActive bool | NotifyDurationEnded nat | NotifyIsActive nat

definition updatePhase ::
  "bool \<Rightarrow> BlackHoleState \<Rightarrow> black_hole_data \<Rightarrow> real \<Rightarrow> black_hole_data \<times> effect list" where
  "updatePhase showBH bh d0 activePeriod =
     (let d1 = d0\<lparr>phase := fl (phase d0 + activePeriod)\<rparr>;
          d2 = (if phase d1 \<ge> cycleLength bh d1
                then d1\<lparr>activations := activations d1 + \<lfloor>fl (phase d1 / cycleLength bh d1)\<rfloor>,
                        phase := js_rem (phase d1) (cycleLength bh d1)\<rparr>
                else d1)
      in if isCharged d2 then
           (if phase d2 \<ge> duration bh d2
            then (d2\<lparr>phase := fl (phase d2 - duration bh d2), active := False\<rparr>,
                  SetActive False # (if showBH then [NotifyDurationEnded (id_bh bh)] else []))
            else (d2, []))
         else if phase d2 \<ge> interval bh d2
         then (d2\<lparr>phase := fl (phase d2 - interval bh d2),
                   activations := activations d2 + 1,
                   active := True\<rparr>,
               SetActive True # (if showBH then [NotifyIsActive (id_bh bh)] else []))
         else (d2, []))"

text \<open>
  The toggles of a call are the assignments to \<open>_data.active\<close> in its trace. Both
  assignments of \<open>updatePhase\<close> write the opposite of the flag they have just tested.
\<close>

fun isSetActive :: "effect \<Rightarrow> bool" where
  "isSetActive (SetActive b) = True"
| "isSetActive (NotifyDurationEnded n) = False"
| "isSetActive (NotifyIsActive n) = False"

definition chargeToggles :: "effect list \<Rightarrow> nat" where
  "chargeToggles trace = length (filter isSetActive trace)"

section \<open>Active time in closed form\<close>

definition timeUntilNextDeactivation :: "BlackHoleState \<Rightarrow> black_hole_data \<Rightarrow> real" where
  "timeUntilNextDeactivation bh d =
     (if isCharged d then fl (duration bh d - phase d) else fl (cycleLength bh d - phase d))"

definition realTimeWhileActive :: "BlackHoleState \<Rightarrow> black_hole_data \<Rightarrow> real \<Rightarrow> real" where
  "realTimeWhileActive bh d time =
     (let nextDeactivation = timeUntilNextDeactivation bh d;
          cooldown = interval bh d;
          duration' = duration bh d;
          fullCycle = cycleLength bh d;
          currentActivationDuration = min nextDeactivation duration';
          activeCyclesUntilLastDeactivation = \<lfloor>fl (fl (time - nextDeactivation) / fullCycle)\<rfloor>;
          activeTimeUntilLastDeactivation =
            fl (duration' * of_int activeCyclesUntilLastDeactivation);
          timeLeftAfterLastDeactivation =
            js_rem (fl (fl (time - nextDeactivation) + fullCycle)) fullCycle;
          lastActivationDuration = max (fl (timeLeftAfterLastDeactivation - cooldown)) 0
      in fl (fl (currentActivationDuration + activeTimeUntilLastDeactivation)
             + lastActivationDuration))"

section \<open>The chain of black holes\<close>

text \<open>
  \<open>BlackHoleState.list\<close>: the three black holes the program constructs,
  \<open>Array.range(0, 3).map(id => new BlackHoleState(id))\<close>.
\<close>

definition BlackHoleState_list :: "BlackHoleState list" where
  "BlackHoleState_list = map BlackHoleState_new [0, 1, 2]"

text \<open>
  The part of the global state the black holes read: \<open>player.blackHole\<close> (indexed by
  \<open>id - 1\<close>; the save has an entry for every black hole of the list),
  \<open>player.blackHolePause\<close> and \<open>Enslaved.isRunning\<close>.
\<close>

record game =
  blackHole :: "nat \<Rightarrow> black_hole_data"
  blackHolePause :: bool
  enslavedIsRunning :: bool

definition data_of :: "game \<Rightarrow> BlackHoleState \<Rightarrow> black_hole_data" where
  "data_of g bh = blackHole g (id_bh bh - 1)"

definition isUnlocked :: "game \<Rightarrow> BlackHoleState \<Rightarrow> bool" where
  "isUnlocked g bh = (unlocked (data_of g bh) \<and> \<not> enslavedIsRunning g)"

text \<open>
  The loop of \<open>realTimePeriodsWithBlackHoleActive\<close> over the list, with its \<open>break\<close> at
  the first black hole that is not unlocked. \<open>activePeriods\<close> is never empty.
\<close>

fun activePeriodsLoop :: "game \<Rightarrow> BlackHoleState list \<Rightarrow> real list \<Rightarrow> real list" where
  "activePeriodsLoop g [] activePeriods = activePeriods"
| "activePeriodsLoop g (bh # rest) activePeriods =
     (if \<not> isUnlocked g bh then activePeriods
      else activePeriodsLoop g rest
             (activePeriods @ [realTimeWhileActive bh (data_of g bh) (last activePeriods)]))"

definition realTimePeriodsWithBlackHoleActive :: "game \<Rightarrow> real \<Rightarrow> real list" where
  "realTimePeriodsWithBlackHoleActive g realTime =
     activePeriodsLoop g BlackHoleState_list [realTime]"

definition realTimePeriodsWithBlackHoleEffective :: "game \<Rightarrow> real \<Rightarrow> real list" where
  "realTimePeriodsWithBlackHoleEffective g realTime =
     (let activePeriods = realTimePeriodsWithBlackHoleActive g realTime
      in map (\<lambda>i. fl (activePeriods ! i - activePeriods ! (i + 1)))
           [0 ..< length activePeriods - 1]
         @ [last activePeriods])"

text \<open>
  \<open>calculateGameTimeFromRealTime\<close> multiplies every effective period by the speedup at
  its own index and sums. \<open>speedups\<close> has an element for every period when it comes from
  \<open>calculateSpeedups\<close>. The method \<open>sum\<close> of arrays is not part of the sources: it is
  taken to add the elements from left to right, starting from 0 (starting from the first
  element gives the same sum, the elements being binary64 values).
\<close>

definition js_sum :: "real list \<Rightarrow> real" where
  "js_sum xs = foldl (\<lambda>total x. fl (total + x)) 0 xs"

definition calculateGameTimeFromRealTime :: "game \<Rightarrow> real \<Rightarrow> real list \<Rightarrow> real" where
  "calculateGameTimeFromRealTime g realTime speedups =
     (let effectivePeriods = realTimePeriodsWithBlackHoleEffective g realTime
      in js_sum (map (\<lambda>i. fl (effectivePeriods ! i * speedups ! i))
                   [0 ..< length effectivePeriods]))"

text \<open>
  \<open>calculateSpeedups\<close> calls \<open>getGameSpeedupFactor\<close>, which is not part of the sources:
  it is a parameter here, \<open>factor None\<close> for the call that overrides the black holes with
  \<open>1\<close> and \<open>factor (Some id)\<close> for the call with the black holes up to \<open>id\<close> active.
\<close>

fun speedupsLoop ::
  "(nat option \<Rightarrow> real) \<Rightarrow> game \<Rightarrow> BlackHoleState list \<Rightarrow> real list \<Rightarrow> real list" where
  "speedupsLoop factor g [] speedups = speedups"
| "speedupsLoop factor g (bh # rest) speedups =
     (if \<not> isUnlocked g bh then speedups
      else speedupsLoop factor g rest
             (speedups @ [fl (factor (Some (id_bh bh)) / factor None)]))"

definition calculateSpeedups :: "(nat option \<Rightarrow> real) \<Rightarrow> game \<Rightarrow> real list" where
  "calculateSpeedups factor g = speedupsLoop factor g BlackHoleState_list [1]"

section \<open>Offline ticks\<close>

text \<open>
  \<open>binarySearch\<close> is a \<open>while (true)\<close> loop whose only exit is the \<open>return\<close> of a
  median within tolerance. It has no iteration count and no \<open>throw\<close>. As a partial
  function, \<open>None\<close> is the run that never returns.
\<close>

partial_function (option) binarySearch ::
  "real \<Rightarrow> real \<Rightarrow> (real \<Rightarrow> real) \<Rightarrow> real \<Rightarrow> real \<Rightarrow> real option" where
  "binarySearch start end' evaluationFunction target tolerance =
     (let median = fl (fl (start + end') / 2);
          error = fl (evaluationFunction median - target)
      in if \<bar>error\<bar> < tolerance then Some median
         else if error < 0 then binarySearch median end' evaluationFunction target tolerance
         else binarySearch start median evaluationFunction target tolerance)"

definition calculateOfflineTick ::
  "(nat option \<Rightarrow> real) \<Rightarrow> game \<Rightarrow> real \<Rightarrow> real \<Rightarrow> real \<Rightarrow> (real \<times> real) option" where
  "calculateOfflineTick factor g totalRealTime numberOfTicks tolerance =
     (let speedups = calculateSpeedups factor g;
          totalGameTime = calculateGameTimeFromRealTime g totalRealTime speedups
      in if numberOfTicks = 1 then Some (totalRealTime, fl (totalGameTime / totalRealTime))
         else
           (case binarySearch 0 totalRealTime
                   (\<lambda>x. fl (fl (calculateGameTimeFromRealTime g x speedups * numberOfTicks)
                            / totalGameTime))
                   1 tolerance of
              None \<Rightarrow> None
            | Some realTickTime \<Rightarrow>
                Some (realTickTime,
                      fl (calculateGameTimeFromRealTime g realTickTime speedups
                          / realTickTime))))"

section \<open>Stepwise simulation\<close>

text \<open>
  The reference the closed form is compared with: the host's active time is cut into
  increments, each so small that the black hole changes state at most once during it; the
  active part of every increment is added up, and after every increment the state is advanced
  by \<open>updatePhase\<close>.

  The active part of an increment \<open>dt\<close>: a charged black hole is active until its phase
  reaches its duration; an uncharged one is inactive until its phase reaches its interval and
  active from then on. A black hole whose phase is already past that point is switched by the
  next \<open>updatePhase\<close>, whatever the increment: a charged one is switched off and is inactive
  until \<open>phase - duration\<close> reaches its interval, an uncharged one is switched on and is
  active until its phase reaches the cycle length. The reference is stated in exact
  arithmetic.
\<close>

definition activePortion :: "BlackHoleState \<Rightarrow> black_hole_data \<Rightarrow> real \<Rightarrow> real" where
  "activePortion bh d dt =
     (if active d then
        (if phase d \<le> duration bh d then min dt (duration bh d - phase d)
         else max (phase d - duration bh d + dt - interval bh d) 0)
      else
        (if phase d < interval bh d then max (phase d + dt - interval bh d) 0
         else min dt (interval bh d + duration bh d - phase d)))"


section \<open>Auxiliary notions for the proofs\<close>

text \<open>
  The closed form and the phase update in exact arithmetic, without any rounding. They are
  what the program computes wherever none of its operations rounds.
\<close>

definition exactCycleLength :: "BlackHoleState \<Rightarrow> black_hole_data \<Rightarrow> real" where
  "exactCycleLength bh d = interval bh d + duration bh d"

definition exactTimeUntilNextDeactivation :: "BlackHoleState \<Rightarrow> black_hole_data \<Rightarrow> real" where
  "exactTimeUntilNextDeactivation bh d =
     (if isCharged d then duration bh d - phase d else exactCycleLength bh d - phase d)"

definition exactActiveTime :: "BlackHoleState \<Rightarrow> black_hole_data \<Rightarrow> real \<Rightarrow> real" where
  "exactActiveTime bh d time =
     (let nextDeactivation = exactTimeUntilNextDeactivation bh d;
          cooldown = interval bh d;
          duration' = duration bh d;
          fullCycle = exactCycleLength bh d;
          currentActivationDuration = min nextDeactivation duration';
          activeCyclesUntilLastDeactivation = \<lfloor>(time - nextDeactivation) / fullCycle\<rfloor>;
          activeTimeUntilLastDeactivation = duration' * of_int activeCyclesUntilLastDeactivation;
          timeLeftAfterLastDeactivation = js_rem (time - nextDeactivation + fullCycle) fullCycle;
          lastActivationDuration = max (timeLeftAfterLastDeactivation - cooldown) 0
      in currentActivationDuration + activeTimeUntilLastDeactivation + lastActivationDuration)"

definition exactUpdatePhase ::
  "bool \<Rightarrow> BlackHoleState \<Rightarrow> black_hole_data \<Rightarrow> real \<Rightarrow> black_hole_data \<times> effect list" where
  "exactUpdatePhase showBH bh d0 activePeriod =
     (let d1 = d0\<lparr>phase := phase d0 + activePeriod\<rparr>;
          d2 = (if phase d1 \<ge> exactCycleLength bh d1
                then d1\<lparr>activations := activations d1 + \<lfloor>phase d1 / exactCycleLength bh d1\<rfloor>,
                        phase := js_rem (phase d1) (exactCycleLength bh d1)\<rparr>
                else d1)
      in if isCharged d2 then
           (if phase d2 \<ge> duration bh d2
            then (d2\<lparr>phase := phase d2 - duration bh d2, active := False\<rparr>,
                  SetActive False # (if showBH then [NotifyDurationEnded (id_bh bh)] else []))
            else (d2, []))
         else if phase d2 \<ge> interval bh d2
         then (d2\<lparr>phase := phase d2 - interval bh d2,
                   activations := activations d2 + 1,
                   active := True\<rparr>,
               SetActive True # (if showBH then [NotifyIsActive (id_bh bh)] else []))
         else (d2, []))"

text \<open>
  The multiples of \<open>1 / 2 ^ k\<close>. Those of moderate size are binary64 values, and the
  program computes with them without rounding.
\<close>

definition onGrid :: "nat \<Rightarrow> real \<Rightarrow> bool" where
  "onGrid k x = (x * 2 ^ k \<in> \<int>)"

text \<open>
  A cycle of a black hole is its interval (inactive) followed by its duration (active).
  \<open>activeUpTo I D u\<close> is the active time among the first \<open>u\<close> time units from the start of
  a cycle; \<open>cyclePosition\<close> is where in its cycle a black hole stands.
\<close>

definition activeUpTo :: "real \<Rightarrow> real \<Rightarrow> real \<Rightarrow> real" where
  "activeUpTo I D u =
     D * of_int \<lfloor>u / (I + D)\<rfloor> + max (u - (I + D) * of_int \<lfloor>u / (I + D)\<rfloor> - I) 0"


text \<open>
  The phase after the fold of the full cycles in \<open>updatePhase\<close>: \<open>phase %= cycleLength\<close>
  where the phase has reached the cycle length, the phase itself otherwise.
\<close>

definition reducedPhase :: "real \<Rightarrow> real \<Rightarrow> real" where
  "reducedPhase x C = (if x \<ge> C then js_rem x C else x)"

section \<open>Rounding to binary64\<close>

lemma round_even_int [simp]: "round_even (of_int z) = z"
  by (simp add: round_even_def)

lemma round_even_bounds: "\<lfloor>r\<rfloor> \<le> round_even r" "round_even r \<le> \<lceil>r\<rceil>"
  unfolding round_even_def by (auto simp: ceiling_altdef)

lemma round_even_error: "\<bar>of_int (round_even r) - r\<bar> \<le> 1 / 2"
  unfolding round_even_def by (auto; linarith)

lemma round_even_minus: "round_even (- r) = - round_even r"
proof (cases "r \<in> \<int>")
  case True
  then obtain z where "r = of_int z" by (auto elim: Ints_cases)
  then have "- r = of_int (- z)" by simp
  then show ?thesis unfolding \<open>r = of_int z\<close> by (simp only: round_even_int)
next
  case False
  then have ne: "r \<noteq> of_int \<lfloor>r\<rfloor>" by (metis Ints_of_int)
  have lt: "of_int \<lfloor>r\<rfloor> < r"
    by (rule order.not_eq_order_implies_strict[OF ne[symmetric] of_int_floor_le])
  have up: "r < of_int \<lfloor>r\<rfloor> + 1" by linarith
  have a: "- real_of_int \<lfloor>r\<rfloor> - 1 \<le> - r" using up by linarith
  have b: "- r < - real_of_int \<lfloor>r\<rfloor> - 1 + 1" using lt by linarith
  have f: "\<lfloor>- r\<rfloor> = - \<lfloor>r\<rfloor> - 1"
  proof (rule floor_unique)
    show "of_int (- \<lfloor>r\<rfloor> - 1) \<le> - r" using a by (simp only: of_int_diff of_int_minus of_int_1)
    show "- r < of_int (- \<lfloor>r\<rfloor> - 1) + 1" using b by (simp only: of_int_diff of_int_minus of_int_1)
  qed
  show ?thesis unfolding round_even_def f using ne by (auto; linarith)
qed

lemma two_powi_pos [simp]: "0 < (2::real) powi k"
  by (simp add: zero_less_power_int)

lemma two_powi_mono: "k \<le> l \<Longrightarrow> (2::real) powi k \<le> 2 powi l"
  by (rule power_int_increasing) simp_all

lemma two_powi_strict_mono: "k < l \<Longrightarrow> (2::real) powi k < 2 powi l"
  by (rule power_int_strict_increasing) simp_all

lemma two_powi_less_cancel: "(2::real) powi k < 2 powi l \<Longrightarrow> k < l"
  using two_powi_mono[of l k] by (cases "k < l") auto

lemma two_powi_add: "(2::real) powi (k + l) = 2 powi k * 2 powi l"
  by (rule power_int_add) simp

lemma two_powi_diff: "(2::real) powi (k - l) = 2 powi k / 2 powi l"
  by (rule power_int_diff) simp

lemma two_powi_nonneg_int: "0 \<le> k \<Longrightarrow> (2::real) powi k = of_int (2 ^ nat k)"
  by (simp add: power_int_def)

lemma two_powr_int: "(2::real) powr real_of_int k = 2 powi k"
  by (simp add: powr_real_of_int')

lemma binade_ge: "- 1022 \<le> binade x"
  by (simp add: binade_def)

lemma floor_log2_bounds:
  assumes "x \<noteq> 0"
  shows "2 powi \<lfloor>log 2 \<bar>x\<bar>\<rfloor> \<le> \<bar>x\<bar>" "\<bar>x\<bar> < 2 powi (\<lfloor>log 2 \<bar>x\<bar>\<rfloor> + 1)"
proof -
  have pos: "0 < \<bar>x\<bar>" using assms by simp
  have "(\<lfloor>log 2 \<bar>x\<bar>\<rfloor> = \<lfloor>log 2 \<bar>x\<bar>\<rfloor>)
      = (2 powi \<lfloor>log 2 \<bar>x\<bar>\<rfloor> \<le> \<bar>x\<bar> \<and> \<bar>x\<bar> < 2 powi (\<lfloor>log 2 \<bar>x\<bar>\<rfloor> + 1))"
    using floor_log_eq_powr_iff[OF pos, of 2 "\<lfloor>log 2 \<bar>x\<bar>\<rfloor>", unfolded two_powr_int] by simp
  then show "2 powi \<lfloor>log 2 \<bar>x\<bar>\<rfloor> \<le> \<bar>x\<bar>" "\<bar>x\<bar> < 2 powi (\<lfloor>log 2 \<bar>x\<bar>\<rfloor> + 1)"
    by simp_all
qed

lemma binade_upper:
  assumes "x \<noteq> 0"
  shows "\<bar>x\<bar> < 2 powi (binade x + 1)"
proof -
  have "\<lfloor>log 2 \<bar>x\<bar>\<rfloor> + 1 \<le> binade x + 1" using assms by (simp add: binade_def)
  then have "(2::real) powi (\<lfloor>log 2 \<bar>x\<bar>\<rfloor> + 1) \<le> 2 powi (binade x + 1)" by (rule two_powi_mono)
  then show ?thesis using floor_log2_bounds(2)[OF assms] by linarith
qed

lemma binade_lower:
  assumes "x \<noteq> 0" "- 1022 < binade x"
  shows "2 powi binade x \<le> \<bar>x\<bar>"
proof -
  have "binade x = \<lfloor>log 2 \<bar>x\<bar>\<rfloor>" using assms by (auto simp: binade_def max_def split: if_splits)
  then show ?thesis using floor_log2_bounds(1)[OF assms(1)] by simp
qed

lemma binade_eqI:
  assumes "2 powi e \<le> \<bar>x\<bar>" "\<bar>x\<bar> < 2 powi (e + 1)" "- 1022 \<le> e"
  shows "binade x = e"
proof -
  have pos: "0 < \<bar>x\<bar>" using assms(1) two_powi_pos[of e] by linarith
  have "(\<lfloor>log 2 \<bar>x\<bar>\<rfloor> = e) = (2 powi e \<le> \<bar>x\<bar> \<and> \<bar>x\<bar> < 2 powi (e + 1))"
    using floor_log_eq_powr_iff[OF pos, of 2 e, unfolded two_powr_int] by simp
  then have "\<lfloor>log 2 \<bar>x\<bar>\<rfloor> = e" using assms by simp
  then show ?thesis using assms(3) pos by (simp add: binade_def)
qed

lemma binade_subnormal:
  assumes "\<bar>x\<bar> < 2 powi (- 1022)"
  shows "binade x = - 1022"
proof (cases "x = 0")
  case True
  then show ?thesis by (simp add: binade_def)
next
  case False
  have "2 powi \<lfloor>log 2 \<bar>x\<bar>\<rfloor> < (2::real) powi (- 1022)"
    using floor_log2_bounds(1)[OF False] assms by linarith
  then have "\<lfloor>log 2 \<bar>x\<bar>\<rfloor> < - 1022" by (rule two_powi_less_cancel)
  then show ?thesis by (simp add: binade_def)
qed

lemma binade_minus [simp]: "binade (- x) = binade x"
  by (simp add: binade_def)

lemma fl_zero [simp]: "fl 0 = 0"
  by (simp add: fl_def round_even_def)

lemma fl_minus: "fl (- x) = - fl x"
  by (simp add: fl_def round_even_minus)

lemma fl_quotient_bound:
  assumes "x \<noteq> 0"
  shows "\<bar>x / 2 powi (binade x - 52)\<bar> < 2 ^ 53"
proof -
  have "\<bar>x\<bar> < 2 powi (binade x + 1)" using assms by (rule binade_upper)
  also have "\<dots> = 2 powi 53 * 2 powi (binade x - 52)"
    using two_powi_add[of 53 "binade x - 52"] by (simp add: algebra_simps)
  finally have "\<bar>x\<bar> / 2 powi (binade x - 52) < 2 powi 53"
    by (simp add: pos_divide_less_eq)
  then show ?thesis by (simp add: abs_divide)
qed

lemma is_double_zero [simp]: "is_double 0"
  unfolding is_double_def by (intro exI[of _ 0] exI[of _ "0::int"]) simp

lemma is_double_minus: "is_double x \<Longrightarrow> is_double (- x)"
  unfolding is_double_def
proof (elim exE conjE)
  fix m e assume "x = of_int m * 2 powi e" "\<bar>m\<bar> < 2 ^ 53" "- 1074 \<le> e"
  then have "- x = of_int (- m) * 2 powi e \<and> \<bar>- m\<bar> < 2 ^ 53 \<and> - 1074 \<le> e" by simp
  then show "\<exists>m e. - x = of_int m * 2 powi e \<and> \<bar>m\<bar> < 2 ^ 53 \<and> - 1074 \<le> e" by blast
qed

lemma is_double_fl [simp]: "is_double (fl x)"
proof (cases "x = 0")
  case True
  then show ?thesis by simp
next
  case False
  define q where "q = (2::real) powi (binade x - 52)"
  define z where "z = round_even (x / q)"
  have b: "\<bar>x / q\<bar> < 2 ^ 53" unfolding q_def using False by (rule fl_quotient_bound)
  have "\<lfloor>x / q\<rfloor> \<le> z" "z \<le> \<lceil>x / q\<rceil>" unfolding z_def by (rule round_even_bounds)+
  moreover have b2: "- (2 ^ 53) < x / q" "x / q < 2 ^ 53" using b by (simp_all only: abs_less_iff) simp_all
  moreover have "- (2 ^ 53) \<le> \<lfloor>x / q\<rfloor>" using b2(1) by (simp add: le_floor_iff)
  moreover have "\<lceil>x / q\<rceil> \<le> 2 ^ 53" using b2(2) by (simp add: ceiling_le_iff)
  ultimately have zb: "\<bar>z\<bar> \<le> 2 ^ 53" by linarith
  have fl: "fl x = of_int z * q" by (simp add: fl_def z_def q_def)
  have e: "- 1074 \<le> binade x - 52" using binade_ge[of x] by simp
  show ?thesis
  proof (cases "\<bar>z\<bar> < 2 ^ 53")
    case True
    then show ?thesis unfolding is_double_def fl q_def using e by blast
  next
    case F: False
    then have "z = 2 ^ 53 \<or> z = - (2 ^ 53)" using zb by linarith
    then have "of_int z * q = of_int (z div 2) * 2 powi (binade x - 52 + 1) \<and> \<bar>z div 2\<bar> < 2 ^ 53"
      unfolding q_def two_powi_add by auto
    then show ?thesis unfolding is_double_def fl using e
      by (intro exI[of _ "z div 2"] exI[of _ "binade x - 52 + 1"]) simp
  qed
qed

lemma is_double_exponent:
  assumes "x = of_int m * 2 powi e" "\<bar>m\<bar> < 2 ^ 53" "- 1074 \<le> e" "x \<noteq> 0"
  shows "binade x - 52 \<le> e"
proof (cases "- 1022 < binade x")
  case False
  then show ?thesis using assms(3) binade_ge[of x] by linarith
next
  case True
  have "2 powi binade x \<le> \<bar>x\<bar>" using assms(4) True by (rule binade_lower)
  also have "\<bar>x\<bar> = \<bar>of_int m\<bar> * 2 powi e" by (simp add: assms(1) abs_mult)
  also have "\<dots> < 2 powi 53 * 2 powi e"
  proof -
    have "\<bar>real_of_int m\<bar> < 2 ^ 53" using assms(2) by (metis of_int_abs of_int_less_numeral_power_cancel_iff)
    then show ?thesis by (simp add: power_int_def)
  qed
  also have "\<dots> = 2 powi (53 + e)" by (simp add: two_powi_add)
  finally have "binade x < 53 + e" by (rule two_powi_less_cancel)
  then show ?thesis by simp
qed

lemma multiple_of_quantum:
  assumes "k \<le> e"
  shows "of_int m * 2 powi e / 2 powi k = real_of_int (m * 2 ^ nat (e - k))"
proof -
  have "(2::real) powi e = 2 powi (e - k) * 2 powi k" using two_powi_add[of "e - k" k] by simp
  moreover have "(2::real) powi (e - k) = of_int (2 ^ nat (e - k))"
    using assms by (intro two_powi_nonneg_int) simp
  ultimately show ?thesis by simp
qed

lemma fl_double:
  assumes "is_double x"
  shows "fl x = x"
proof (cases "x = 0")
  case True
  then show ?thesis by simp
next
  case False
  obtain m e where x: "x = of_int m * 2 powi e" and m: "\<bar>m\<bar> < 2 ^ 53" and e: "- 1074 \<le> e"
    using assms unfolding is_double_def by blast
  have k: "binade x - 52 \<le> e" using x m e False by (rule is_double_exponent)
  have "x / 2 powi (binade x - 52) = real_of_int (m * 2 ^ nat (e - (binade x - 52)))"
    unfolding x[symmetric] using multiple_of_quantum[OF k, of m] x by simp
  then have "fl x = x / 2 powi (binade x - 52) * 2 powi (binade x - 52)"
    unfolding fl_def by (simp only: round_even_int)
  then show ?thesis by simp
qed

lemma fl_le_double:
  assumes "is_double y" "x \<le> y"
  shows "fl x \<le> y"
proof (cases "x = 0")
  case True
  then show ?thesis using assms by simp
next
  case False
  define q where "q = (2::real) powi (binade x - 52)"
  have q: "0 < q" by (simp add: q_def)
  obtain m e where y: "y = of_int m * 2 powi e" and m: "\<bar>m\<bar> < 2 ^ 53" and e: "- 1074 \<le> e"
    using assms(1) unfolding is_double_def by blast
  have fl: "fl x = of_int (round_even (x / q)) * q" by (simp add: fl_def q_def)
  have up: "fl x \<le> of_int \<lceil>x / q\<rceil> * q"
    unfolding fl using round_even_bounds(2)[of "x / q"] q by simp
  show ?thesis
  proof (cases "binade x - 52 \<le> e")
    case True
    have yq: "y / q = real_of_int (m * 2 ^ nat (e - (binade x - 52)))"
      unfolding y q_def by (rule multiple_of_quantum[OF True])
    have "x / q \<le> y / q" using assms(2) q by (simp add: divide_right_mono)
    then have "\<lceil>x / q\<rceil> \<le> m * 2 ^ nat (e - (binade x - 52))"
      unfolding yq by (simp only: ceiling_le_iff)
    then have "real_of_int \<lceil>x / q\<rceil> \<le> y / q" unfolding yq by (simp only: of_int_le_iff)
    then have "of_int \<lceil>x / q\<rceil> * q \<le> y" using q by (simp add: pos_le_divide_eq)
    then show ?thesis using up by linarith
  next
    case F: False
    then have big: "- 1022 < binade x" using e by linarith
    have lo: "2 powi binade x \<le> \<bar>x\<bar>" using False big by (rule binade_lower)
    have "\<bar>y\<bar> = \<bar>of_int m\<bar> * 2 powi e" by (simp add: y abs_mult)
    also have "\<dots> \<le> 2 powi 53 * 2 powi e"
    proof -
      have "\<bar>real_of_int m\<bar> < 2 ^ 53" using m by (metis of_int_abs of_int_less_numeral_power_cancel_iff)
      then show ?thesis by (simp add: power_int_def)
    qed
    also have "\<dots> = 2 powi (53 + e)" by (simp add: two_powi_add)
    also have "\<dots> \<le> 2 powi binade x" using F by (intro two_powi_mono) simp
    finally have ylt: "\<bar>y\<bar> \<le> 2 powi binade x" .
    have ystrict: "\<bar>y\<bar> < 2 powi binade x"
    proof -
      have "\<bar>real_of_int m\<bar> < 2 ^ 53" using m by (metis of_int_abs of_int_less_numeral_power_cancel_iff)
      then have "\<bar>of_int m\<bar> * 2 powi e < 2 powi 53 * (2::real) powi e" by (simp add: power_int_def)
      also have "\<dots> = 2 powi (53 + e)" by (simp add: two_powi_add)
      also have "\<dots> \<le> 2 powi binade x" using F by (intro two_powi_mono) simp
      finally show ?thesis by (simp add: y abs_mult)
    qed
    have xneg: "x \<le> - (2 powi binade x)" using lo ystrict assms(2) by (auto simp: abs_if split: if_splits)
    have "2 powi binade x = 2 powi 52 * q" unfolding q_def using two_powi_add[of 52 "binade x - 52"] by simp
    then have edge: "- (2 powi binade x) / q = real_of_int (- (2 ^ 52))" using q by (simp add: power_int_def)
    have "x / q \<le> - (2 powi binade x) / q" using xneg q by (intro divide_right_mono) simp_all
    then have "\<lceil>x / q\<rceil> \<le> - (2 ^ 52)" unfolding edge by (simp only: ceiling_le_iff)
    then have "real_of_int \<lceil>x / q\<rceil> \<le> - (2 powi binade x) / q" unfolding edge by (simp only: of_int_le_iff)
    then have "of_int \<lceil>x / q\<rceil> * q \<le> - (2 powi binade x)"
      using q by (simp only: pos_le_divide_eq)
    then show ?thesis using up ystrict by (auto simp: abs_if split: if_splits)
  qed
qed

lemma fl_ge_double:
  assumes "is_double y" "y \<le> x"
  shows "y \<le> fl x"
proof -
  have "fl (- x) \<le> - y" using assms by (intro fl_le_double is_double_minus) simp_all
  then show ?thesis by (simp add: fl_minus)
qed

lemma fl_nonneg: "0 \<le> x \<Longrightarrow> 0 \<le> fl x"
  by (rule fl_ge_double) simp_all

lemma fl_nonpos: "x \<le> 0 \<Longrightarrow> fl x \<le> 0"
  by (rule fl_le_double) simp_all

lemma abs_of_int_less_power: "\<bar>m\<bar> < 2 ^ n \<Longrightarrow> \<bar>real_of_int m\<bar> < 2 ^ n"
  by (metis of_int_abs of_int_less_numeral_power_cancel_iff)

lemma is_double_of_int:
  assumes "\<bar>z\<bar> \<le> 2 ^ 53"
  shows "is_double (of_int z)"
proof (cases "\<bar>z\<bar> < 2 ^ 53")
  case True
  then show ?thesis unfolding is_double_def by (intro exI[of _ z] exI[of _ "0::int"]) simp
next
  case False
  then have "z = 2 ^ 53 \<or> z = - (2 ^ 53)" using assms by linarith
  then have "real_of_int z = of_int (z div 2) * 2 powi 1 \<and> \<bar>z div 2\<bar> < 2 ^ 53" by auto
  then show ?thesis unfolding is_double_def by (intro exI[of _ "z div 2"] exI[of _ "1::int"]) simp
qed

lemma is_double_Ints:
  assumes "x \<in> \<int>" "\<bar>x\<bar> \<le> 2 ^ 53"
  shows "is_double x"
proof -
  obtain z where x: "x = of_int z" using assms(1) by (auto elim: Ints_cases)
  have "\<bar>real_of_int z\<bar> \<le> 2 ^ 53" using assms(2) x by simp
  then have "\<bar>z\<bar> \<le> 2 ^ 53" by (metis of_int_abs of_int_le_numeral_power_cancel_iff)
  then show ?thesis unfolding x by (rule is_double_of_int)
qed

lemma fl_Ints: "x \<in> \<int> \<Longrightarrow> \<bar>x\<bar> \<le> 2 ^ 53 \<Longrightarrow> fl x = x"
  by (rule fl_double) (rule is_double_Ints)

lemma is_double_dyadic:
  assumes "\<bar>m\<bar> < 2 ^ 53" "k \<le> 1074"
  shows "is_double (of_int m / 2 ^ k)"
proof -
  have "real_of_int m / 2 ^ k = of_int m * 2 powi (- int k)"
    by (simp add: power_int_minus field_simps)
  then show ?thesis unfolding is_double_def using assms
    by (intro exI[of _ m] exI[of _ "- int k"]) simp
qed

lemma fl_dyadic: "\<bar>m\<bar> < 2 ^ 53 \<Longrightarrow> k \<le> 1074 \<Longrightarrow> fl (of_int m / 2 ^ k) = of_int m / 2 ^ k"
  by (rule fl_double) (rule is_double_dyadic)

lemma fl_error: "\<bar>fl x - x\<bar> \<le> \<bar>x\<bar> / 2 ^ 53 + 2 powi (- 1075)"
proof (cases "x = 0")
  case True
  then show ?thesis by simp
next
  case False
  define q where "q = (2::real) powi (binade x - 52)"
  have q: "0 < q" by (simp add: q_def)
  have "fl x - x = (of_int (round_even (x / q)) - x / q) * q" using q by (simp add: fl_def q_def algebra_simps)
  then have "\<bar>fl x - x\<bar> = \<bar>of_int (round_even (x / q)) - x / q\<bar> * q" using q by (simp add: abs_mult)
  also have "\<dots> \<le> 1 / 2 * q" using round_even_error[of "x / q"] q by (intro mult_right_mono) simp_all
  finally have half: "\<bar>fl x - x\<bar> \<le> q / 2" by simp
  show ?thesis
  proof (cases "- 1022 < binade x")
    case True
    have "2 powi binade x \<le> \<bar>x\<bar>" using False True by (rule binade_lower)
    moreover have "(2::real) powi binade x = 2 powi 52 * q" unfolding q_def using two_powi_add[of 52 "binade x - 52"] by simp
    ultimately have "2 ^ 52 * q \<le> \<bar>x\<bar>" by (simp add: power_int_def)
    then have "q / 2 \<le> \<bar>x\<bar> / 2 ^ 53" by simp
    moreover have "0 \<le> (2::real) powi (- 1075)" by simp
    ultimately show ?thesis using half by linarith
  next
    case F: False
    then have "binade x = - 1022" using binade_ge[of x] by linarith
    then have "binade x - 52 = - 1075 + 1" by simp
    then have "q = 2 powi (- 1075) * 2 powi 1" unfolding q_def by (simp only: two_powi_add)
    then have "q / 2 = 2 powi (- 1075)" by (simp only: power_int_1_right)
    moreover have "0 \<le> \<bar>x\<bar> / 2 ^ 53" by simp
    ultimately show ?thesis using half by linarith
  qed
qed

lemma fl_eval:
  assumes "2 powi e \<le> \<bar>x\<bar>" "\<bar>x\<bar> < 2 powi (e + 1)" "- 1022 \<le> e"
  shows "fl x = of_int (round_even (x / 2 powi (e - 52))) * 2 powi (e - 52)"
  unfolding fl_def binade_eqI[OF assms] ..

lemma js_trunc_error: "\<bar>x - of_int (js_trunc x)\<bar> < 1" "\<bar>x - of_int (js_trunc x)\<bar> \<le> \<bar>x\<bar>"
proof -
  show "\<bar>x - of_int (js_trunc x)\<bar> < 1" unfolding js_trunc_def by (auto; linarith)
  show "\<bar>x - of_int (js_trunc x)\<bar> \<le> \<bar>x\<bar>"
  proof (cases "x < 0")
    case True
    then have "\<lceil>x\<rceil> \<le> 0" by (simp add: ceiling_le_iff)
    then have "real_of_int \<lceil>x\<rceil> \<le> 0" by simp
    moreover have "x \<le> of_int \<lceil>x\<rceil>" by simp
    ultimately show ?thesis using True by (simp add: js_trunc_def)
  next
    case False
    then have "0 \<le> \<lfloor>x\<rfloor>" by simp
    then have "0 \<le> real_of_int \<lfloor>x\<rfloor>" by simp
    moreover have "of_int \<lfloor>x\<rfloor> \<le> x" by simp
    ultimately show ?thesis using False by (simp add: js_trunc_def)
  qed
qed

lemma js_rem_bounds:
  assumes "b \<noteq> 0"
  shows "\<bar>js_rem a b\<bar> < \<bar>b\<bar>" "\<bar>js_rem a b\<bar> \<le> \<bar>a\<bar>"
proof -
  have r: "js_rem a b = b * (a / b - of_int (js_trunc (a / b)))"
    using assms by (simp add: js_rem_def algebra_simps)
  have "\<bar>js_rem a b\<bar> = \<bar>b\<bar> * \<bar>a / b - of_int (js_trunc (a / b))\<bar>" unfolding r by (simp add: abs_mult)
  moreover have "\<bar>b\<bar> * \<bar>a / b - of_int (js_trunc (a / b))\<bar> < \<bar>b\<bar> * 1"
    using js_trunc_error(1)[of "a / b"] assms by (intro mult_strict_left_mono) simp_all
  moreover have "\<bar>b\<bar> * \<bar>a / b - of_int (js_trunc (a / b))\<bar> \<le> \<bar>b\<bar> * \<bar>a / b\<bar>"
    using js_trunc_error(2)[of "a / b"] by (intro mult_left_mono) simp_all
  moreover have "\<bar>b\<bar> * \<bar>a / b\<bar> = \<bar>a\<bar>" using assms by (simp add: abs_divide)
  ultimately show "\<bar>js_rem a b\<bar> < \<bar>b\<bar>" "\<bar>js_rem a b\<bar> \<le> \<bar>a\<bar>" by simp_all
qed

lemma is_double_js_rem:
  assumes "is_double a" "is_double b" "b \<noteq> 0"
  shows "is_double (js_rem a b)"
proof -
  obtain m i where a: "a = of_int m * 2 powi i" and m: "\<bar>m\<bar> < 2 ^ 53" and i: "- 1074 \<le> i"
    using assms(1) unfolding is_double_def by blast
  obtain n j where b: "b = of_int n * 2 powi j" and n: "\<bar>n\<bar> < 2 ^ 53" and j: "- 1074 \<le> j"
    using assms(2) unfolding is_double_def by blast
  define c where "c = min i j"
  define k where "k = js_trunc (a / b)"
  define m' where "m' = m * 2 ^ nat (i - c)"
  define n' where "n' = n * 2 ^ nat (j - c)"
  have pc: "0 < (2::real) powi c" by simp
  have a': "a = of_int m' * 2 powi c"
    using multiple_of_quantum[of c i m] pc by (simp add: a m'_def c_def field_simps)
  have b': "b = of_int n' * 2 powi c"
    using multiple_of_quantum[of c j n] pc by (simp add: b n'_def c_def field_simps)
  define z where "z = m' - n' * k"
  have r: "js_rem a b = of_int z * 2 powi c"
    unfolding js_rem_def k_def[symmetric] z_def by (simp add: a' b' algebra_simps)
  have "\<bar>real_of_int z\<bar> < 2 ^ 53"
  proof (cases "i \<le> j")
    case True
    then have "m' = m" by (simp add: m'_def c_def)
    have "\<bar>js_rem a b\<bar> \<le> \<bar>a\<bar>" using assms(3) by (rule js_rem_bounds)
    moreover have "\<bar>js_rem a b\<bar> = \<bar>real_of_int z\<bar> * 2 powi c" by (simp add: r abs_mult)
    moreover have "\<bar>a\<bar> = \<bar>real_of_int m'\<bar> * 2 powi c" by (subst a') (simp add: abs_mult)
    ultimately have "\<bar>real_of_int z\<bar> * 2 powi c \<le> \<bar>real_of_int m'\<bar> * 2 powi c"
      by simp
    then have "\<bar>real_of_int z\<bar> \<le> \<bar>real_of_int m'\<bar>" using pc by simp
    then show ?thesis using abs_of_int_less_power[OF m] \<open>m' = m\<close> by simp
  next
    case False
    then have "n' = n" by (simp add: n'_def c_def)
    have "\<bar>js_rem a b\<bar> < \<bar>b\<bar>" using assms(3) by (rule js_rem_bounds)
    moreover have "\<bar>js_rem a b\<bar> = \<bar>real_of_int z\<bar> * 2 powi c" by (simp add: r abs_mult)
    moreover have "\<bar>b\<bar> = \<bar>real_of_int n'\<bar> * 2 powi c" by (subst b') (simp add: abs_mult)
    ultimately have "\<bar>real_of_int z\<bar> * 2 powi c < \<bar>real_of_int n'\<bar> * 2 powi c"
      by simp
    then have "\<bar>real_of_int z\<bar> < \<bar>real_of_int n'\<bar>" using pc by simp
    then show ?thesis using abs_of_int_less_power[OF n] \<open>n' = n\<close> by simp
  qed
  then have "\<bar>z\<bar> < 2 ^ 53" by (metis of_int_abs of_int_less_numeral_power_cancel_iff)
  moreover have "- 1074 \<le> c" using i j by (simp add: c_def)
  ultimately show ?thesis unfolding is_double_def using r by blast
qed

lemma floor_fl_divide:
  assumes "a \<in> \<int>" "b \<in> \<int>" "0 < b" "b \<le> 2 ^ 26" "\<bar>a\<bar> \<le> 2 ^ 26"
  shows "\<lfloor>fl (a / b)\<rfloor> = \<lfloor>a / b\<rfloor>"
proof -
  obtain a' where a: "a = of_int a'" using assms(1) by (auto elim: Ints_cases)
  obtain b' where b: "b = of_int b'" using assms(2) by (auto elim: Ints_cases)
  define k where "k = \<lfloor>a / b\<rfloor>"
  have b1: "1 \<le> b" using assms(3) b by simp
  have "\<bar>a\<bar> / b \<le> \<bar>a\<bar> / 1" using b1 by (intro divide_left_mono) simp_all
  then have "\<bar>a / b\<bar> \<le> \<bar>a\<bar>" using assms(3) by (simp add: abs_divide)
  then have ab: "\<bar>a / b\<bar> \<le> 2 ^ 26" using assms(5) by linarith
  have ab2: "- (2 ^ 26) \<le> a / b" "a / b \<le> 2 ^ 26" using ab by (simp_all only: abs_le_iff) simp_all
  have "- (2 ^ 26) \<le> k" unfolding k_def using ab2(1) by (simp add: le_floor_iff)
  moreover have "of_int k \<le> a / b" unfolding k_def by simp
  then have "real_of_int k \<le> 2 ^ 26" using ab2(2) by linarith
  then have "k \<le> 2 ^ 26" by (metis of_int_le_numeral_power_cancel_iff)
  ultimately have kb: "- (2 ^ 26) \<le> k" "k \<le> 2 ^ 26" by simp_all
  have "is_double (of_int k)" using kb by (intro is_double_of_int) simp
  moreover have "of_int k \<le> a / b" by (simp add: k_def)
  ultimately have lo: "of_int k \<le> fl (a / b)" by (rule fl_ge_double)
  define y where "y = real_of_int ((k + 1) * 2 ^ 26 - 1) / 2 ^ 26"
  have y: "y = of_int k + 1 - 1 / 2 ^ 26" by (simp add: y_def field_simps)
  have "is_double y" unfolding y_def using kb by (intro is_double_dyadic) simp_all
  moreover have "a / b \<le> y"
  proof -
    have "a / b < of_int k + 1" unfolding k_def by linarith
    then have "a < (of_int k + 1) * b" using assms(3) by (simp add: pos_divide_less_eq)
    then have "real_of_int a' < real_of_int ((k + 1) * b')" by (simp add: a b)
    then have "a' < (k + 1) * b'" by (simp only: of_int_less_iff)
    then have "a' \<le> (k + 1) * b' - 1" by simp
    then have "real_of_int a' \<le> real_of_int ((k + 1) * b' - 1)" by (simp only: of_int_le_iff)
    then have "a \<le> (of_int k + 1) * b - 1" by (simp add: a b)
    then have "a / b \<le> of_int k + 1 - 1 / b" using assms(3) by (simp add: field_simps)
    moreover have "1 / 2 ^ 26 \<le> 1 / b" using assms(3,4) by (simp add: field_simps)
    ultimately show ?thesis unfolding y by linarith
  qed
  ultimately have "fl (a / b) \<le> y" by (rule fl_le_double)
  then have hi: "fl (a / b) < of_int k + 1" unfolding y by simp
  show ?thesis unfolding k_def[symmetric] using lo hi by (intro floor_unique) simp_all
qed

lemma fl_numeral [simp]: "(numeral n :: real) \<le> 2 ^ 53 \<Longrightarrow> fl (numeral n) = numeral n"
  by (rule fl_Ints) simp_all

lemma fl_one [simp]: "fl 1 = 1"
  by (rule fl_Ints) simp_all

lemma fl_neg_numeral [simp]: "(numeral n :: real) \<le> 2 ^ 53 \<Longrightarrow> fl (- numeral n) = - numeral n"
  by (simp add: fl_minus)

lemma is_double_one [simp]: "is_double 1"
  using is_double_Ints[of 1] by simp

lemma fl_fl [simp]: "fl (fl x) = fl x"
  by (rule fl_double) simp

lemma round_even_small:
  assumes "\<bar>r\<bar> < 1 / 2"
  shows "round_even r = 0"
proof -
  have "\<bar>of_int (round_even r) - r\<bar> \<le> 1 / 2" by (rule round_even_error)
  then have "\<bar>real_of_int (round_even r)\<bar> < 1" using assms by linarith
  then show ?thesis by linarith
qed

lemma fl_underflow:
  assumes "\<bar>x\<bar> < 2 powi (- 1075)"
  shows "fl x = 0"
proof -
  have "(2::real) powi (- 1075) \<le> 2 powi (- 1022)" by (rule two_powi_mono) simp
  then have b: "binade x = - 1022" using assms by (intro binade_subnormal) linarith
  have "\<bar>x / 2 powi (- 1074)\<bar> = \<bar>x\<bar> / 2 powi (- 1074)" by simp
  also have "\<dots> < 2 powi (- 1075) / 2 powi (- 1074)" using assms by (intro divide_strict_right_mono) simp_all
  also have "\<dots> = 2 powi (- 1075 - (- 1074))" by (rule two_powi_diff[symmetric])
  also have "\<dots> = 1 / 2" by simp
  finally have "round_even (x / 2 powi (- 1074)) = 0" by (rule round_even_small)
  then show ?thesis unfolding fl_def b by simp
qed

lemma abs_fl_less_double:
  assumes "is_double y" "\<bar>fl x\<bar> < y"
  shows "\<bar>x\<bar> < y"
proof (rule ccontr)
  assume "\<not> \<bar>x\<bar> < y"
  then consider "y \<le> x" | "x \<le> - y" by linarith
  then show False
  proof cases
    case 1
    then have "y \<le> fl x" using assms(1) by (intro fl_ge_double)
    then show False using assms(2) by linarith
  next
    case 2
    then have "fl x \<le> - y" using assms(1) by (intro fl_le_double is_double_minus)
    then show False using assms(2) by linarith
  qed
qed

lemma fl_roundingBound: "\<bar>fl x - x\<bar> \<le> roundingBound x"
  unfolding roundingBound_def by (rule fl_error)

section \<open>Arithmetic of cycles\<close>

lemma js_rem_nonneg:
  assumes "0 \<le> a" "0 < b"
  shows "js_rem a b = a - b * of_int \<lfloor>a / b\<rfloor>"
proof -
  have "\<not> a / b < 0" using assms by (simp add: not_less)
  then show ?thesis by (simp add: js_rem_def js_trunc_def)
qed

lemma floor_rem_bounds:
  fixes u C :: real
  assumes "0 < C"
  shows "0 \<le> u - C * of_int \<lfloor>u / C\<rfloor>" "u - C * of_int \<lfloor>u / C\<rfloor> < C"
proof -
  have "of_int \<lfloor>u / C\<rfloor> \<le> u / C" by simp
  then have "of_int \<lfloor>u / C\<rfloor> * C \<le> u" using assms by (simp only: pos_le_divide_eq)
  then have "C * of_int \<lfloor>u / C\<rfloor> \<le> u" by (simp add: mult.commute)
  then show "0 \<le> u - C * of_int \<lfloor>u / C\<rfloor>" by simp
  have "u / C < of_int \<lfloor>u / C\<rfloor> + 1" by linarith
  then have "u < (of_int \<lfloor>u / C\<rfloor> + 1) * C" using assms by (simp only: pos_divide_less_eq)
  then show "u - C * of_int \<lfloor>u / C\<rfloor> < C" by (simp add: algebra_simps)
qed

lemma floor_shift:
  fixes u C :: real
  assumes "C \<noteq> 0"
  shows "\<lfloor>(u + of_int k * C) / C\<rfloor> = \<lfloor>u / C\<rfloor> + k"
proof -
  have "(u + of_int k * C) / C = u / C + of_int k" using assms by (simp add: add_divide_distrib)
  then show ?thesis by simp
qed


lemma activeUpTo_mono:
  assumes "0 \<le> I" "0 \<le> D" "0 < I + D" "u \<le> v"
  shows "activeUpTo I D u \<le> activeUpTo I D v"
proof -
  define C where "C = I + D"
  define k where "k = \<lfloor>u / C\<rfloor>"
  define k' where "k' = \<lfloor>v / C\<rfloor>"
  have C: "0 < C" using assms by (simp add: C_def)
  have kk: "k \<le> k'" unfolding k_def k'_def using assms C by (intro floor_mono divide_right_mono) auto
  have ru: "0 \<le> u - C * of_int k" "u - C * of_int k < C" unfolding k_def using floor_rem_bounds[OF C] by auto
  have rv: "0 \<le> v - C * of_int k'" "v - C * of_int k' < C" unfolding k'_def using floor_rem_bounds[OF C] by auto
  have Gu: "activeUpTo I D u = D * of_int k + max (u - C * of_int k - I) 0" by (simp add: activeUpTo_def C_def k_def)
  have Gv: "activeUpTo I D v = D * of_int k' + max (v - C * of_int k' - I) 0" by (simp add: activeUpTo_def C_def k'_def)
  show ?thesis
  proof (cases "k = k'")
    case True
    then show ?thesis using Gu Gv assms by simp
  next
    case False
    then have "k + 1 \<le> k'" using kk by simp
    then have "(of_int (k + 1) :: real) \<le> of_int k'" by (simp only: of_int_le_iff)
    then have "D * of_int (k + 1) \<le> D * of_int k'" using assms(2) by (rule mult_left_mono)
    then have "D * of_int k + D \<le> D * of_int k'" by (simp add: algebra_simps)
    moreover have "max (u - C * of_int k - I) 0 \<le> D" using ru assms by (simp add: C_def)
    moreover have "0 \<le> max (v - C * of_int k' - I) 0" by simp
    ultimately show ?thesis unfolding Gu Gv by linarith
  qed
qed



lemma exactActiveTime_closed:
  assumes "0 < exactCycleLength bh d"
    and "0 \<le> t - exactTimeUntilNextDeactivation bh d + exactCycleLength bh d"
  shows "exactActiveTime bh d t =
           min (exactTimeUntilNextDeactivation bh d) (duration bh d)
           + activeUpTo (interval bh d) (duration bh d) (t - exactTimeUntilNextDeactivation bh d)"
proof -
  define C where "C = exactCycleLength bh d"
  define u where "u = t - exactTimeUntilNextDeactivation bh d"
  have C: "0 < C" "C \<noteq> 0" using assms by (auto simp: C_def)
  have "\<lfloor>(u + of_int 1 * C) / C\<rfloor> = \<lfloor>u / C\<rfloor> + 1" by (rule floor_shift[OF C(2)])
  then have fl: "\<lfloor>(u + C) / C\<rfloor> = \<lfloor>u / C\<rfloor> + 1" by simp
  have "js_rem (u + C) C = (u + C) - C * of_int \<lfloor>(u + C) / C\<rfloor>"
    using assms C by (intro js_rem_nonneg) (auto simp: u_def C_def)
  then have rem: "js_rem (u + C) C = u - C * of_int \<lfloor>u / C\<rfloor>"
    unfolding fl by (simp add: algebra_simps)
  have CI: "C = interval bh d + duration bh d" by (simp add: C_def exactCycleLength_def)
  show ?thesis
    unfolding exactActiveTime_def Let_def C_def[symmetric] u_def[symmetric] rem
    by (simp add: activeUpTo_def CI)
qed


section \<open>The phase update, step by step\<close>

lemma getters_phase_update [simp]:
  "interval bh (d\<lparr>phase := x\<rparr>) = interval bh d"
  "duration bh (d\<lparr>phase := x\<rparr>) = duration bh d"
  "interval bh (d\<lparr>active := b\<rparr>) = interval bh d"
  "duration bh (d\<lparr>active := b\<rparr>) = duration bh d"
  "interval bh (d\<lparr>activations := n\<rparr>) = interval bh d"
  "duration bh (d\<lparr>activations := n\<rparr>) = duration bh d"
  by (simp_all add: interval_def duration_def)

lemma reducedPhase_bounds:
  assumes "0 < C" "0 \<le> x"
  shows "0 \<le> reducedPhase x C" "reducedPhase x C < C"
    "\<exists>k. reducedPhase x C = x - of_int k * C"
proof -
  have r: "js_rem x C = x - C * of_int \<lfloor>x / C\<rfloor>" using assms by (intro js_rem_nonneg) auto
  show "0 \<le> reducedPhase x C" using assms floor_rem_bounds(1)[OF assms(1), of x]
    by (simp add: reducedPhase_def r)
  show "reducedPhase x C < C" using assms floor_rem_bounds(2)[OF assms(1), of x]
    by (simp add: reducedPhase_def r)
  show "\<exists>k. reducedPhase x C = x - of_int k * C"
  proof (cases "x \<ge> C")
    case True
    then have "reducedPhase x C = x - of_int \<lfloor>x / C\<rfloor> * C" by (simp add: reducedPhase_def r mult.commute)
    then show ?thesis by blast
  next
    case False
    then have "reducedPhase x C = x - of_int 0 * C" by (simp add: reducedPhase_def)
    then show ?thesis by blast
  qed
qed

lemma exactUpdatePhase_fst:
  "fst (exactUpdatePhase s bh d a) =
     (let q = reducedPhase (phase d + a) (exactCycleLength bh d);
          n = (if phase d + a \<ge> exactCycleLength bh d
               then activations d + \<lfloor>(phase d + a) / exactCycleLength bh d\<rfloor> else activations d)
      in if active d then
           (if q \<ge> duration bh d then d\<lparr>phase := q - duration bh d, activations := n, active := False\<rparr>
            else d\<lparr>phase := q, activations := n\<rparr>)
         else if q \<ge> interval bh d
         then d\<lparr>phase := q - interval bh d, activations := n + 1, active := True\<rparr>
         else d\<lparr>phase := q, activations := n\<rparr>)"
  by (simp add: exactUpdatePhase_def Let_def reducedPhase_def exactCycleLength_def isCharged_def)

lemma exactUpdatePhase_getters [simp]:
  "interval bh (fst (exactUpdatePhase s bh d a)) = interval bh d"
  "duration bh (fst (exactUpdatePhase s bh d a)) = duration bh d"
  "exactCycleLength bh (fst (exactUpdatePhase s bh d a)) = exactCycleLength bh d"
  by (simp_all add: exactUpdatePhase_fst Let_def exactCycleLength_def)

lemma exactUpdatePhase_wellPhased:
  assumes "0 < interval bh d" "0 < duration bh d" "0 \<le> phase d + a"
  shows "0 \<le> phase (fst (exactUpdatePhase s bh d a))"
    and "if active (fst (exactUpdatePhase s bh d a))
         then phase (fst (exactUpdatePhase s bh d a)) < duration bh d
         else phase (fst (exactUpdatePhase s bh d a)) < interval bh d"
proof -
  have C: "0 < exactCycleLength bh d" using assms by (simp add: exactCycleLength_def)
  note b = reducedPhase_bounds(1,2)[OF C assms(3)]
  show "0 \<le> phase (fst (exactUpdatePhase s bh d a))"
    using b by (simp add: exactUpdatePhase_fst Let_def)
  show "if active (fst (exactUpdatePhase s bh d a))
         then phase (fst (exactUpdatePhase s bh d a)) < duration bh d
         else phase (fst (exactUpdatePhase s bh d a)) < interval bh d"
    using b by (simp add: exactUpdatePhase_fst Let_def exactCycleLength_def)
qed

lemma exactUpdatePhase_phase_in_cycle:
  assumes "0 < interval bh d" "0 < duration bh d" "0 \<le> phase d + activePeriod"
  shows "0 \<le> phase (fst (exactUpdatePhase showBH bh d activePeriod))
       \<and> phase (fst (exactUpdatePhase showBH bh d activePeriod)) < exactCycleLength bh d"
proof -
  note wp = exactUpdatePhase_wellPhased[OF assms, of showBH]
  have "phase (fst (exactUpdatePhase showBH bh d activePeriod)) < exactCycleLength bh d"
    using wp(2) assms(1,2) by (auto simp: exactCycleLength_def split: if_splits)
  then show ?thesis using wp(1) by simp
qed


section \<open>The closed form and the simulation\<close>



lemma exactActiveTime_mono:
  assumes "0 < interval bh d" "0 < duration bh d" "0 \<le> phase d" "phase d < exactCycleLength bh d"
    and "0 \<le> s" "s \<le> t"
  shows "exactActiveTime bh d s \<le> exactActiveTime bh d t"
proof -
  have C: "0 < exactCycleLength bh d" using assms by (simp add: exactCycleLength_def)
  have nd: "exactTimeUntilNextDeactivation bh d \<le> exactCycleLength bh d"
    using assms by (simp add: exactTimeUntilNextDeactivation_def exactCycleLength_def)
  have "exactActiveTime bh d s = min (exactTimeUntilNextDeactivation bh d) (duration bh d)
           + activeUpTo (interval bh d) (duration bh d) (s - exactTimeUntilNextDeactivation bh d)"
    using assms nd by (intro exactActiveTime_closed[OF C]) simp
  moreover have "exactActiveTime bh d t = min (exactTimeUntilNextDeactivation bh d) (duration bh d)
           + activeUpTo (interval bh d) (duration bh d) (t - exactTimeUntilNextDeactivation bh d)"
    using assms nd by (intro exactActiveTime_closed[OF C]) simp
  moreover have "activeUpTo (interval bh d) (duration bh d) (s - exactTimeUntilNextDeactivation bh d)
      \<le> activeUpTo (interval bh d) (duration bh d) (t - exactTimeUntilNextDeactivation bh d)"
    using assms by (intro activeUpTo_mono) auto
  ultimately show ?thesis by simp
qed



section \<open>Numbers on a grid\<close>

text \<open>
  Where the interval, the duration, the phase and the time are multiples of one
  \<open>1 / 2 ^ k\<close>, at most \<open>2 ^ 24\<close> of them (for \<open>k = 0\<close>: whole numbers up to
  \<open>2 ^ 24\<close>), no operation of the closed form or of the phase update rounds, and the
  floor of the rounded quotient is the floor of the quotient: the program computes what exact
  arithmetic does.
\<close>

lemma onGrid_zero [simp]: "onGrid k 0"
  by (simp add: onGrid_def)

lemma onGrid_whole [simp]: "onGrid 0 x = (x \<in> \<int>)"
  by (simp add: onGrid_def)

lemma onGrid_add: "onGrid k x \<Longrightarrow> onGrid k y \<Longrightarrow> onGrid k (x + y)"
  by (simp add: onGrid_def distrib_right)

lemma onGrid_diff: "onGrid k x \<Longrightarrow> onGrid k y \<Longrightarrow> onGrid k (x - y)"
  by (simp add: onGrid_def left_diff_distrib)

lemma onGrid_mult_of_int: "onGrid k x \<Longrightarrow> onGrid k (x * of_int n)"
proof -
  assume "onGrid k x"
  then have "x * 2 ^ k \<in> \<int>" by (simp add: onGrid_def)
  then have "x * 2 ^ k * of_int n \<in> \<int>" by (rule Ints_mult) (rule Ints_of_int)
  moreover have "x * of_int n * 2 ^ k = x * 2 ^ k * of_int n" by (simp only: ac_simps)
  ultimately show ?thesis unfolding onGrid_def by (simp only:)
qed

lemma onGrid_min: "onGrid k x \<Longrightarrow> onGrid k y \<Longrightarrow> onGrid k (min x y)"
  by (simp add: min_def)

lemma onGrid_max: "onGrid k x \<Longrightarrow> onGrid k y \<Longrightarrow> onGrid k (max x y)"
  by (simp add: max_def)

lemma onGrid_js_rem: "onGrid k a \<Longrightarrow> onGrid k b \<Longrightarrow> onGrid k (js_rem a b)"
  unfolding js_rem_def by (intro onGrid_diff onGrid_mult_of_int)


lemma fl_onGrid:
  assumes "onGrid k x" "\<bar>x\<bar> * 2 ^ k < 2 ^ 53" "k \<le> 1074"
  shows "fl x = x"
proof -
  obtain m where m: "x * 2 ^ k = of_int m" using assms(1) unfolding onGrid_def by (auto elim: Ints_cases)
  have x: "x = of_int m / 2 ^ k" using m by (simp add: field_simps)
  have "\<bar>x * 2 ^ k\<bar> < 2 ^ 53" using assms(2) by (simp add: abs_mult)
  then have "\<bar>real_of_int m\<bar> < 2 ^ 53" unfolding m .
  then have "\<bar>m\<bar> < 2 ^ 53" by (metis of_int_abs of_int_less_numeral_power_cancel_iff)
  then show ?thesis unfolding x using assms(3) by (rule fl_dyadic)
qed

lemma floor_fl_divide_onGrid:
  assumes "onGrid k a" "onGrid k b" "0 < b" "b * 2 ^ k \<le> 2 ^ 26" "\<bar>a\<bar> * 2 ^ k \<le> 2 ^ 26"
  shows "\<lfloor>fl (a / b)\<rfloor> = \<lfloor>a / b\<rfloor>"
proof -
  have e: "a / b = (a * 2 ^ k) / (b * 2 ^ k)" by simp
  have "\<bar>a * 2 ^ k\<bar> \<le> 2 ^ 26" using assms(5) by (simp add: abs_mult)
  then show ?thesis unfolding e using assms(1-4)
    by (intro floor_fl_divide) (simp_all add: onGrid_def)
qed

lemma js_pow_zero [simp]: "js_pow b 0 = 1"
  by (simp add: js_pow_def)

lemma realTimeWhileActive_onGrid:
  assumes k: "k \<le> 1074"
    and I: "onGrid k (interval bh d)" "0 < interval bh d" "interval bh d * 2 ^ k \<le> 2 ^ 24"
    and D: "onGrid k (duration bh d)" "0 < duration bh d" "duration bh d * 2 ^ k \<le> 2 ^ 24"
    and p: "onGrid k (phase d)" "0 \<le> phase d" "phase d * 2 ^ k \<le> 2 ^ 25"
    and t: "onGrid k t" "0 \<le> t" "t * 2 ^ k \<le> 2 ^ 24"
  shows "realTimeWhileActive bh d t = exactActiveTime bh d t"
proof -
  define I where "I = interval bh d"
  define D where "D = duration bh d"
  define p where "p = phase d"
  define s :: real where "s = 2 ^ k"
  have s: "0 < s" by (simp add: s_def)
  have IZ: "onGrid k I" "0 < I" "I * s \<le> 16777216" using I by (simp_all add: I_def s_def)
  have DZ: "onGrid k D" "0 < D" "D * s \<le> 16777216" using D by (simp_all add: D_def s_def)
  have pZ: "onGrid k p" "0 \<le> p" "p * s \<le> 33554432" using p by (simp_all add: p_def s_def)
  have tZ: "onGrid k t" "0 \<le> t" "t * s \<le> 16777216" using t by (simp_all add: s_def)
  have fg: "fl x = x" if "onGrid k x" "\<bar>x\<bar> * s \<le> 2 ^ 52" for x
    using that(1) _ k
  proof (rule fl_onGrid)
    show "\<bar>x\<bar> * 2 ^ k < 2 ^ 53" using that(2) by (simp add: s_def)
  qed
  have CZ: "onGrid k (I + D)" "0 < I + D" "(I + D) * s \<le> 33554432"
    using IZ DZ by (simp_all add: onGrid_add distrib_right)
  have C: "cycleLength bh d = I + D"
    unfolding cycleLength_def I_def[symmetric] D_def[symmetric]
    using CZ by (intro fg) simp_all
  define nd where "nd = (if active d then D - p else I + D - p)"
  have ndZ: "onGrid k nd" using IZ DZ pZ CZ by (simp add: nd_def onGrid_diff)
  have "\<bar>nd\<bar> * s = \<bar>nd * s\<bar>" using s by (simp add: abs_mult)
  also have "\<dots> \<le> 33554432"
  proof -
    have "0 \<le> I * s" "0 \<le> D * s" "0 \<le> p * s" using IZ DZ pZ s by simp_all
    then show ?thesis using IZ(3) DZ(3) pZ(3)
      by (auto simp: nd_def left_diff_distrib distrib_right abs_le_iff)
  qed
  finally have ndB: "\<bar>nd\<bar> * s \<le> 33554432" .
  have nd: "timeUntilNextDeactivation bh d = nd"
    unfolding timeUntilNextDeactivation_def C isCharged_def nd_def
      D_def[symmetric] p_def[symmetric]
    using ndZ ndB by (auto simp: nd_def intro!: fg)
  have nd': "exactTimeUntilNextDeactivation bh d = nd"
    by (simp add: exactTimeUntilNextDeactivation_def exactCycleLength_def isCharged_def nd_def
        I_def D_def p_def)
  define x where "x = t - nd"
  have xZ: "onGrid k x" using tZ ndZ by (simp add: x_def onGrid_diff)
  have "\<bar>x\<bar> \<le> t + \<bar>nd\<bar>" using tZ by (simp add: x_def)
  then have "\<bar>x\<bar> * s \<le> (t + \<bar>nd\<bar>) * s" using s by (intro mult_right_mono) simp_all
  then have xB: "\<bar>x\<bar> * s \<le> 50331648" using tZ ndB by (simp add: distrib_right)
  have fx: "fl (t - nd) = x" unfolding x_def[symmetric] using xZ xB by (intro fg) simp_all
  have fc: "\<lfloor>fl (x / (I + D))\<rfloor> = \<lfloor>x / (I + D)\<rfloor>"
    using xZ CZ xB by (intro floor_fl_divide_onGrid[of k]) (simp_all add: s_def)
  define c where "c = \<lfloor>x / (I + D)\<rfloor>"
  have "\<bar>real_of_int c\<bar> \<le> \<bar>x / (I + D)\<bar> + 1" unfolding c_def by linarith
  then have "D * \<bar>real_of_int c\<bar> \<le> D * (\<bar>x / (I + D)\<bar> + 1)" using DZ by (intro mult_left_mono) simp_all
  also have "\<dots> = \<bar>x\<bar> * (D / (I + D)) + D" using CZ by (simp add: distrib_left abs_divide)
  also have "\<dots> \<le> \<bar>x\<bar> * 1 + D"
  proof -
    have "D / (I + D) \<le> 1" using IZ DZ by simp
    then have "\<bar>x\<bar> * (D / (I + D)) \<le> \<bar>x\<bar> * 1" by (intro mult_left_mono) simp_all
    then show ?thesis by simp
  qed
  finally have "\<bar>D * of_int c\<bar> \<le> \<bar>x\<bar> + D" using DZ by (simp add: abs_mult)
  then have "\<bar>D * of_int c\<bar> * s \<le> (\<bar>x\<bar> + D) * s" using s by (intro mult_right_mono) simp_all
  then have uB: "\<bar>D * of_int c\<bar> * s \<le> 67108864" using xB DZ by (simp add: distrib_right)
  have uZ: "onGrid k (D * of_int c)" using DZ by (intro onGrid_mult_of_int)
  have fu: "fl (D * of_int c) = D * of_int c" using uZ uB by (intro fg) simp_all
  have "\<bar>x + (I + D)\<bar> \<le> \<bar>x\<bar> + (I + D)" using CZ by simp
  then have "\<bar>x + (I + D)\<bar> * s \<le> (\<bar>x\<bar> + (I + D)) * s" using s by (intro mult_right_mono) simp_all
  then have sB: "\<bar>x + (I + D)\<bar> * s \<le> 83886080" using xB CZ by (simp add: distrib_right)
  have xCZ: "onGrid k (x + (I + D))" using xZ CZ(1) by (rule onGrid_add)
  have fs: "fl (x + (I + D)) = x + (I + D)" using xCZ sB by (intro fg) simp_all
  define r where "r = js_rem (x + (I + D)) (I + D)"
  have rZ: "onGrid k r" unfolding r_def using xCZ CZ(1) by (rule onGrid_js_rem)
  have "\<bar>r\<bar> < \<bar>I + D\<bar>" unfolding r_def using CZ by (intro js_rem_bounds) simp
  then have rC: "\<bar>r\<bar> \<le> I + D" using CZ by linarith
  then have "\<bar>r\<bar> * s \<le> (I + D) * s" using s by (intro mult_right_mono) simp_all
  then have rB: "\<bar>r\<bar> * s \<le> 33554432" using CZ by linarith
  have "\<bar>r - I\<bar> \<le> \<bar>r\<bar> + I" using IZ by simp
  then have "\<bar>r - I\<bar> * s \<le> (\<bar>r\<bar> + I) * s" using s by (intro mult_right_mono) simp_all
  then have wB: "\<bar>r - I\<bar> * s \<le> 50331648" using rB IZ by (simp add: distrib_right)
  have wZ: "onGrid k (r - I)" using rZ IZ(1) by (rule onGrid_diff)
  have fr: "fl (r - I) = r - I" using wZ wB by (intro fg) simp_all
  define cur where "cur = min nd D"
  have curZ: "onGrid k cur" unfolding cur_def using ndZ DZ by (intro onGrid_min)
  have "\<bar>cur\<bar> \<le> \<bar>nd\<bar> + D" using DZ by (simp add: cur_def min_def)
  then have "\<bar>cur\<bar> * s \<le> (\<bar>nd\<bar> + D) * s" using s by (intro mult_right_mono) simp_all
  then have curB: "\<bar>cur\<bar> * s \<le> 50331648" using ndB DZ by (simp add: distrib_right)
  have "\<bar>cur + D * of_int c\<bar> \<le> \<bar>cur\<bar> + \<bar>D * of_int c\<bar>" by simp
  then have "\<bar>cur + D * of_int c\<bar> * s \<le> (\<bar>cur\<bar> + \<bar>D * of_int c\<bar>) * s"
    using s by (intro mult_right_mono) simp_all
  then have b1: "\<bar>cur + D * of_int c\<bar> * s \<le> 117440512" using curB uB by (simp add: distrib_right)
  have yZ: "onGrid k (cur + D * of_int c)" using curZ uZ by (rule onGrid_add)
  have f1: "fl (cur + D * of_int c) = cur + D * of_int c"
    using yZ b1 by (intro fg) simp_all
  define l where "l = max (r - I) 0"
  have lZ: "onGrid k l" unfolding l_def using wZ by (intro onGrid_max) simp_all
  have "\<bar>l\<bar> \<le> \<bar>r - I\<bar>" by (simp add: l_def max_def)
  then have "\<bar>l\<bar> * s \<le> \<bar>r - I\<bar> * s" using s by (intro mult_right_mono) simp_all
  then have lB: "\<bar>l\<bar> * s \<le> 50331648" using wB by linarith
  have "\<bar>cur + D * of_int c + l\<bar> \<le> \<bar>cur + D * of_int c\<bar> + \<bar>l\<bar>" by simp
  then have "\<bar>cur + D * of_int c + l\<bar> * s \<le> (\<bar>cur + D * of_int c\<bar> + \<bar>l\<bar>) * s"
    using s by (intro mult_right_mono) simp_all
  then have b2: "\<bar>cur + D * of_int c + l\<bar> * s \<le> 167772160" using b1 lB by (simp add: distrib_right)
  have zZ: "onGrid k (cur + D * of_int c + l)" using yZ lZ by (rule onGrid_add)
  have f2: "fl (cur + D * of_int c + l) = cur + D * of_int c + l"
    using zZ b2 by (intro fg) simp_all
  have "realTimeWhileActive bh d t = cur + D * of_int c + l"
    unfolding realTimeWhileActive_def Let_def nd C I_def[symmetric] D_def[symmetric]
      fx fc c_def[symmetric] fu fs r_def[symmetric] fr cur_def[symmetric] f1 l_def[symmetric] f2 ..
  moreover have "exactActiveTime bh d t = cur + D * of_int c + l"
    unfolding exactActiveTime_def Let_def nd' exactCycleLength_def I_def[symmetric] D_def[symmetric]
      x_def[symmetric] c_def[symmetric] r_def[symmetric] cur_def[symmetric] l_def[symmetric]
    using x_def by (simp add: r_def c_def l_def)
  ultimately show ?thesis by simp
qed

lemma cycleLength_update [simp]:
  "cycleLength bh (d\<lparr>phase := x\<rparr>) = cycleLength bh d"
  "cycleLength bh (d\<lparr>active := b\<rparr>) = cycleLength bh d"
  "cycleLength bh (d\<lparr>activations := n\<rparr>) = cycleLength bh d"
  by (simp_all add: cycleLength_def)

lemma updatePhase_onGrid:
  assumes k: "k \<le> 1074"
    and I: "onGrid k (interval bh d)" "0 < interval bh d" "interval bh d * 2 ^ k \<le> 2 ^ 24"
    and D: "onGrid k (duration bh d)" "0 < duration bh d" "duration bh d * 2 ^ k \<le> 2 ^ 24"
    and p: "onGrid k (phase d)" "0 \<le> phase d" "phase d * 2 ^ k \<le> 2 ^ 25"
    and a: "onGrid k a" "0 \<le> a" "a * 2 ^ k \<le> 2 ^ 24"
  shows "updatePhase showBH bh d a = exactUpdatePhase showBH bh d a"
proof -
  define I where "I = interval bh d"
  define D where "D = duration bh d"
  define x where "x = phase d + a"
  define s :: real where "s = 2 ^ k"
  have s: "0 < s" by (simp add: s_def)
  have IZ: "onGrid k I" "0 < I" "I * s \<le> 16777216" using I by (simp_all add: I_def s_def)
  have DZ: "onGrid k D" "0 < D" "D * s \<le> 16777216" using D by (simp_all add: D_def s_def)
  have fg: "fl y = y" if "onGrid k y" "\<bar>y\<bar> * s \<le> 2 ^ 52" for y
    using that(1) _ k
  proof (rule fl_onGrid)
    show "\<bar>y\<bar> * 2 ^ k < 2 ^ 53" using that(2) by (simp add: s_def)
  qed
  have xZ: "onGrid k x" unfolding x_def using p(1) a(1) by (rule onGrid_add)
  have x0: "0 \<le> x" using p a by (simp add: x_def)
  have xB: "x * s \<le> 50331648" using p(3) a(3) by (simp add: x_def s_def distrib_right)
  have CZ: "onGrid k (I + D)" "0 < I + D" "(I + D) * s \<le> 33554432"
    using IZ DZ by (simp_all add: onGrid_add distrib_right)
  have C: "cycleLength bh d = I + D"
    unfolding cycleLength_def I_def[symmetric] D_def[symmetric]
    using CZ by (intro fg) simp_all
  have fx: "fl x = x" using xZ x0 xB by (intro fg) simp_all
  have fc: "\<lfloor>fl (x / (I + D))\<rfloor> = \<lfloor>x / (I + D)\<rfloor>"
    using xZ CZ x0 xB by (intro floor_fl_divide_onGrid[of k]) (simp_all add: s_def)
  define r where "r = js_rem x (I + D)"
  have rZ: "onGrid k r" unfolding r_def using xZ CZ(1) by (rule onGrid_js_rem)
  have "\<bar>r\<bar> < \<bar>I + D\<bar>" unfolding r_def using CZ by (intro js_rem_bounds) simp
  then have rC: "\<bar>r\<bar> \<le> I + D" using CZ by linarith
  have sub: "fl (y - z) = y - z" if "onGrid k y" "onGrid k z" "\<bar>y\<bar> * s \<le> 50331648" "0 < z" "z * s \<le> 16777216" for y z
  proof -
    have "\<bar>y - z\<bar> \<le> \<bar>y\<bar> + z" using that(4) by simp
    then have "\<bar>y - z\<bar> * s \<le> (\<bar>y\<bar> + z) * s" using s by (intro mult_right_mono) simp_all
    then have "\<bar>y - z\<bar> * s \<le> 2 ^ 52" using that(3,5) by (simp add: distrib_right)
    then show ?thesis using that(1,2) by (intro fg onGrid_diff)
  qed
  have "\<bar>r\<bar> * s \<le> (I + D) * s" using rC s by (intro mult_right_mono) simp_all
  then have rB: "\<bar>r\<bar> * s \<le> 50331648" using CZ by linarith
  have xB': "\<bar>x\<bar> * s \<le> 50331648" using x0 xB by simp
  have f: "fl (r - D) = r - D" "fl (r - I) = r - I" "fl (x - D) = x - D" "fl (x - I) = x - I"
    using sub[OF rZ DZ(1) rB DZ(2,3)] sub[OF rZ IZ(1) rB IZ(2,3)]
      sub[OF xZ DZ(1) xB' DZ(2,3)] sub[OF xZ IZ(1) xB' IZ(2,3)] by simp_all
  show ?thesis
    unfolding updatePhase_def exactUpdatePhase_def Let_def
    by (simp add: C exactCycleLength_def fx fc x_def[symmetric] r_def[symmetric] f
        I_def[symmetric] D_def[symmetric] isCharged_def)
qed




lemma realTimeWhileActive_whole:
  assumes "interval bh d \<in> \<int>" "0 < interval bh d" "interval bh d \<le> 2 ^ 24"
    and "duration bh d \<in> \<int>" "0 < duration bh d" "duration bh d \<le> 2 ^ 24"
    and "phase d \<in> \<int>" "0 \<le> phase d" "phase d \<le> 2 ^ 25"
    and "t \<in> \<int>" "0 \<le> t" "t \<le> 2 ^ 24"
  shows "realTimeWhileActive bh d t = exactActiveTime bh d t"
  using assms by (intro realTimeWhileActive_onGrid[of 0]) simp_all

lemma updatePhase_whole:
  assumes "interval bh d \<in> \<int>" "0 < interval bh d" "interval bh d \<le> 2 ^ 24"
    and "duration bh d \<in> \<int>" "0 < duration bh d" "duration bh d \<le> 2 ^ 24"
    and "phase d \<in> \<int>" "0 \<le> phase d" "phase d \<le> 2 ^ 25"
    and "a \<in> \<int>" "0 \<le> a" "a \<le> 2 ^ 24"
  shows "updatePhase showBH bh d a = exactUpdatePhase showBH bh d a"
  using assms by (intro updatePhase_onGrid[of 0]) simp_all

section \<open>The phase update on binary64 values\<close>

lemma updatePhase_fst:
  "fst (updatePhase s bh d a) =
     (let q = reducedPhase (fl (phase d + a)) (cycleLength bh d);
          n = (if fl (phase d + a) \<ge> cycleLength bh d
               then activations d + \<lfloor>fl (fl (phase d + a) / cycleLength bh d)\<rfloor>
               else activations d)
      in if active d then
           (if q \<ge> duration bh d
            then d\<lparr>phase := fl (q - duration bh d), activations := n, active := False\<rparr>
            else d\<lparr>phase := q, activations := n\<rparr>)
         else if q \<ge> interval bh d
         then d\<lparr>phase := fl (q - interval bh d), activations := n + 1, active := True\<rparr>
         else d\<lparr>phase := q, activations := n\<rparr>)"
  by (simp add: updatePhase_def Let_def reducedPhase_def isCharged_def)

lemma updatePhase_getters [simp]:
  "interval bh (fst (updatePhase s bh d a)) = interval bh d"
  "duration bh (fst (updatePhase s bh d a)) = duration bh d"
  "cycleLength bh (fst (updatePhase s bh d a)) = cycleLength bh d"
  by (simp_all add: updatePhase_fst Let_def cycleLength_def)

lemma is_double_cycleLength [simp]: "is_double (cycleLength bh d)"
  by (simp add: cycleLength_def)

lemma is_double_reducedPhase:
  assumes "is_double x" "is_double C" "C \<noteq> 0"
  shows "is_double (reducedPhase x C)"
  using assms by (simp add: reducedPhase_def is_double_js_rem)

lemma updatePhase_phase_in_cycle:
  assumes "0 < interval bh d" "0 < duration bh d" "0 < cycleLength bh d"
    and "0 \<le> phase d + activePeriod"
  shows "0 \<le> phase (fst (updatePhase showBH bh d activePeriod))
       \<and> phase (fst (updatePhase showBH bh d activePeriod)) < cycleLength bh d"
proof -
  define C where "C = cycleLength bh d"
  define x where "x = fl (phase d + activePeriod)"
  define q where "q = reducedPhase x C"
  have x0: "0 \<le> x" unfolding x_def using assms(4) by (rule fl_nonneg)
  have C0: "0 < C" using assms(3) by (simp add: C_def)
  have q: "0 \<le> q" "q < C" unfolding q_def using reducedPhase_bounds(1,2)[OF C0 x0] by simp_all
  have dq: "is_double q"
    unfolding q_def using C0 by (intro is_double_reducedPhase) (simp_all add: x_def C_def)
  have sub: "0 \<le> fl (q - y) \<and> fl (q - y) < C" if "0 < y" "y \<le> q" for y
  proof -
    have "0 \<le> fl (q - y)" using that by (intro fl_nonneg) simp
    moreover have "fl (q - y) \<le> q" using dq that by (intro fl_le_double) simp_all
    ultimately show ?thesis using q by simp
  qed
  show ?thesis
    using q sub[OF assms(1)] sub[OF assms(2)]
    by (simp add: updatePhase_fst Let_def C_def[symmetric] x_def[symmetric] q_def[symmetric])
qed

lemma updatePhase_wellPhased:
  assumes "0 < interval bh d" "0 < duration bh d" "is_double (duration bh d)"
    and "0 < cycleLength bh d" "0 \<le> phase d + activePeriod"
  shows "if active (fst (updatePhase showBH bh d activePeriod))
         then phase (fst (updatePhase showBH bh d activePeriod)) \<le> duration bh d
         else phase (fst (updatePhase showBH bh d activePeriod)) < cycleLength bh d"
proof -
  define I where "I = interval bh d"
  define D where "D = duration bh d"
  define C where "C = cycleLength bh d"
  define x where "x = fl (phase d + activePeriod)"
  define q where "q = reducedPhase x C"
  have x0: "0 \<le> x" unfolding x_def using assms(5) by (rule fl_nonneg)
  have C0: "0 < C" using assms(4) by (simp add: C_def)
  have q: "0 \<le> q" "q < C" unfolding q_def using reducedPhase_bounds(1,2)[OF C0 x0] by simp_all
  have dq: "is_double q"
    unfolding q_def using C0 by (intro is_double_reducedPhase) (simp_all add: x_def C_def)
  have ID: "0 < I" "0 < D" "is_double D" using assms(1-3) by (simp_all add: I_def D_def)
  have off: "fl (q - D) < C"
  proof -
    have "fl (q - D) \<le> q" using dq ID by (intro fl_le_double) simp_all
    then show ?thesis using q by simp
  qed
  have on: "fl (q - I) \<le> D"
  proof (cases "q - I \<le> D")
    case True
    then show ?thesis using ID(3) by (intro fl_le_double)
  next
    case False
    then have "I + D \<le> q" by simp
    then have "fl (I + D) \<le> q" using dq by (intro fl_le_double)
    then show ?thesis using q(2) by (simp add: C_def cycleLength_def I_def D_def)
  qed
  show ?thesis
    using q off on
    by (simp add: updatePhase_fst Let_def C_def[symmetric] x_def[symmetric] q_def[symmetric]
        I_def[symmetric] D_def[symmetric])
qed

section \<open>The chain\<close>

lemma activePeriodsLoop_prefix:
  "\<exists>more. activePeriodsLoop g bhs acc = acc @ more"
proof (induction bhs arbitrary: acc)
  case Nil
  then show ?case by simp
next
  case (Cons bh rest)
  show ?case
  proof (cases "isUnlocked g bh")
    case False
    then show ?thesis by simp
  next
    case True
    obtain more where "activePeriodsLoop g rest (acc @ [realTimeWhileActive bh (data_of g bh) (last acc)])
        = (acc @ [realTimeWhileActive bh (data_of g bh) (last acc)]) @ more"
      using Cons.IH by blast
    then show ?thesis using True by simp
  qed
qed

lemma realTimePeriodsWithBlackHoleActive_shape:
  "realTimePeriodsWithBlackHoleActive g t \<noteq> []"
  "realTimePeriodsWithBlackHoleActive g t ! 0 = t"
proof -
  obtain more where "realTimePeriodsWithBlackHoleActive g t = [t] @ more"
    unfolding realTimePeriodsWithBlackHoleActive_def using activePeriodsLoop_prefix by blast
  then show "realTimePeriodsWithBlackHoleActive g t \<noteq> []"
    "realTimePeriodsWithBlackHoleActive g t ! 0 = t" by simp_all
qed

lemma telescope_sum_list:
  fixes xs :: "real list"
  assumes "xs \<noteq> []"
  shows "sum_list (map (\<lambda>i. xs ! i - xs ! (i + 1)) [0 ..< length xs - 1] @ [last xs]) = xs ! 0"
proof -
  have "sum_list (map (\<lambda>i. xs ! i - xs ! (i + 1)) [0 ..< n]) = xs ! 0 - xs ! n" for n
    by (induction n) simp_all
  then have "sum_list (map (\<lambda>i. xs ! i - xs ! (i + 1)) [0 ..< length xs - 1]) = xs ! 0 - xs ! (length xs - 1)"
    by blast
  moreover have "last xs = xs ! (length xs - 1)" using assms by (rule last_conv_nth)
  ultimately show ?thesis by simp
qed

lemma rounded_differences_error:
  fixes xs :: "real list"
  assumes "xs \<noteq> []"
  shows "\<bar>sum_list (map (\<lambda>i. fl (xs ! i - xs ! (i + 1))) [0 ..< length xs - 1] @ [last xs]) - xs ! 0\<bar>
         \<le> sum_list (map (\<lambda>i. roundingBound (xs ! i - xs ! (i + 1)))
                      [0 ..< length xs - 1])"
proof -
  have "\<bar>sum_list (map (\<lambda>i. fl (xs ! i - xs ! (i + 1))) [0 ..< n]) - (xs ! 0 - xs ! n)\<bar>
         \<le> sum_list (map (\<lambda>i. roundingBound (xs ! i - xs ! (i + 1))) [0 ..< n])" for n
  proof (induction n)
    case 0
    then show ?case by simp
  next
    case (Suc n)
    have "\<bar>fl (xs ! n - xs ! (n + 1)) - (xs ! n - xs ! (n + 1))\<bar>
          \<le> roundingBound (xs ! n - xs ! (n + 1))" by (rule fl_roundingBound)
    then show ?case using Suc by simp
  qed
  then have b: "\<bar>sum_list (map (\<lambda>i. fl (xs ! i - xs ! (i + 1))) [0 ..< length xs - 1])
               - (xs ! 0 - xs ! (length xs - 1))\<bar>
         \<le> sum_list (map (\<lambda>i. roundingBound (xs ! i - xs ! (i + 1)))
                      [0 ..< length xs - 1])" by blast
  have "last xs = xs ! (length xs - 1)" using assms by (rule last_conv_nth)
  then have e: "sum_list (map (\<lambda>i. fl (xs ! i - xs ! (i + 1))) [0 ..< length xs - 1] @ [last xs]) - xs ! 0
      = sum_list (map (\<lambda>i. fl (xs ! i - xs ! (i + 1))) [0 ..< length xs - 1])
               - (xs ! 0 - xs ! (length xs - 1))" by simp
  show ?thesis unfolding e by (rule b)
qed

lemma unrounded_differences_sum:
  fixes xs :: "real list"
  assumes "xs \<noteq> []" "\<forall>i < length xs - 1. is_double (xs ! i - xs ! (i + 1))"
  shows "sum_list (map (\<lambda>i. fl (xs ! i - xs ! (i + 1))) [0 ..< length xs - 1] @ [last xs]) = xs ! 0"
proof -
  have eq: "map (\<lambda>i. fl (xs ! i - xs ! (i + 1))) [0 ..< length xs - 1]
        = map (\<lambda>i. xs ! i - xs ! (i + 1)) [0 ..< length xs - 1]"
    using assms(2) by (intro map_cong) (simp_all add: fl_double)
  show ?thesis unfolding eq using assms(1) by (rule telescope_sum_list)
qed



section \<open>The binary search\<close>

lemma binarySearch_within_tolerance:
  assumes "binarySearch start end' f target tolerance = Some m"
  shows "\<bar>fl (f m - target)\<bar> < tolerance"
proof (rule binarySearch.raw_induct[where P = "\<lambda>s e h t tol y. \<bar>fl (h y - t)\<bar> < tol", OF _ assms])
  fix search s e h t tol y
  assume IH: "\<And>s e h t tol y. search s e h t tol = Some y \<Longrightarrow> \<bar>fl (h y - t)\<bar> < tol"
    and eq: "(let median = fl (fl (s + e) / 2); error = fl (h median - t)
              in if \<bar>error\<bar> < tol then Some median
                 else if error < 0 then search median e h t tol
                 else search s median h t tol) = Some y"
  show "\<bar>fl (h y - t)\<bar> < tol"
  proof (cases "\<bar>fl (h (fl (fl (s + e) / 2)) - t)\<bar> < tol")
    case True
    then have "y = fl (fl (s + e) / 2)" using eq by (simp add: Let_def)
    then show ?thesis using True by simp
  next
    case False
    show ?thesis
    proof (cases "fl (h (fl (fl (s + e) / 2)) - t) < 0")
      case True
      then have "search (fl (fl (s + e) / 2)) e h t tol = Some y"
        using eq False by (simp add: Let_def)
      then show ?thesis by (rule IH)
    next
      case F2: False
      then have "search s (fl (fl (s + e) / 2)) h t tol = Some y"
        using eq False by (simp add: Let_def)
      then show ?thesis by (rule IH)
    qed
  qed
qed

lemma binarySearch_never_returns:
  assumes "tolerance \<le> 0"
  shows "binarySearch start end' f target tolerance = None"
proof (cases "binarySearch start end' f target tolerance")
  case None
  then show ?thesis .
next
  case (Some m)
  then have "\<bar>fl (f m - target)\<bar> < tolerance" by (rule binarySearch_within_tolerance)
  then show ?thesis using assms by simp
qed

section \<open>The constructed black holes\<close>

text \<open>
  Bounds on what the constructor computes for the three black holes of the list. The
  duration is at least 4 and the interval is not negative, whatever the upgrades. The
  interval is a multiple of a power of 0.8: it is positive for up to 1000 upgrades, and the
  rounding takes the power to 0 once the upgrades are many (\<open>interval_underflow\<close>).
\<close>

lemma js_pow_ge_one: "1 \<le> b \<Longrightarrow> 1 \<le> js_pow b n"
  unfolding js_pow_def by (intro fl_ge_double one_le_power) simp_all

lemma js_pow_nonneg: "0 \<le> b \<Longrightarrow> 0 \<le> js_pow b n"
  unfolding js_pow_def by (intro fl_nonneg zero_le_power)

lemma literal_bounds: "1 \<le> fl (13 / 10)" "1 / 2 \<le> fl (8 / 10)" "fl (8 / 10) \<le> 13 / 16"
proof -
  show "1 \<le> fl (13 / 10)" by (rule fl_ge_double) simp_all
  have "is_double (1 / 2)" using is_double_dyadic[of 1 1] by simp
  then show "1 / 2 \<le> fl (8 / 10)" by (rule fl_ge_double) simp
  have "is_double (13 / 16)" using is_double_dyadic[of 13 4] by simp
  then show "fl (8 / 10) \<le> 13 / 16" by (rule fl_le_double) simp
qed

lemma base_values:
  assumes "i < 3"
  shows "fl (3600 / js_pow 10 i) \<in> {3600, 360, 36}" "fl (10 - fl (real i * 3)) \<in> {10, 7, 4}"
proof -
  have "i = 0 \<or> i = 1 \<or> i = 2" using assms by auto
  then show "fl (3600 / js_pow 10 i) \<in> {3600, 360, 36}" "fl (10 - fl (real i * 3)) \<in> {10, 7, 4}"
    by (auto simp: js_pow_def)
qed

lemma BlackHoleState_list_new:
  assumes "bh \<in> set BlackHoleState_list"
  shows "\<exists>i<3. bh = BlackHoleState_new i"
proof -
  have "bh = BlackHoleState_new 0 \<or> bh = BlackHoleState_new 1 \<or> bh = BlackHoleState_new 2"
    using assms by (auto simp: BlackHoleState_list_def)
  moreover have "(0::nat) < 3" "(1::nat) < 3" "(2::nat) < 3" by simp_all
  ultimately show ?thesis by blast
qed

lemma BlackHoleState_list_duration:
  assumes "bh \<in> set BlackHoleState_list"
  shows "4 \<le> duration bh d"
proof -
  obtain i where i: "i < 3" "bh = BlackHoleState_new i" using BlackHoleState_list_new[OF assms] by blast
  define b where "b = fl (10 - fl (real i * 3))"
  define p where "p = js_pow (fl (13 / 10)) (durationUpgrades d)"
  have b: "4 \<le> b" using base_values(2)[OF i(1)] by (auto simp: b_def)
  have p: "1 \<le> p" unfolding p_def using literal_bounds(1) by (rule js_pow_ge_one)
  have "4 * 1 \<le> b * p" using b p by (intro mult_mono) simp_all
  moreover have "is_double 4" using is_double_Ints[of 4] by simp
  ultimately have "4 \<le> fl (b * p)" by (intro fl_ge_double) simp_all
  then show ?thesis by (simp add: i(2) duration_def BlackHoleState_new_def b_def p_def)
qed

lemma BlackHoleState_list_interval:
  assumes "bh \<in> set BlackHoleState_list"
  shows "0 \<le> interval bh d"
proof -
  obtain i where i: "i < 3" "bh = BlackHoleState_new i" using BlackHoleState_list_new[OF assms] by blast
  define b where "b = fl (3600 / js_pow 10 i)"
  define p where "p = js_pow (fl (8 / 10)) (intervalUpgrades d)"
  have b: "0 \<le> b" using base_values(1)[OF i(1)] by (auto simp: b_def)
  have p: "0 \<le> p" unfolding p_def using literal_bounds(2) by (intro js_pow_nonneg) simp
  have "0 \<le> fl (b * p)" using b p by (intro fl_nonneg) simp
  then show ?thesis by (simp add: i(2) interval_def BlackHoleState_new_def b_def p_def)
qed

lemma BlackHoleState_list_cycleLength:
  assumes "bh \<in> set BlackHoleState_list"
  shows "4 \<le> cycleLength bh d"
proof -
  have "4 \<le> interval bh d + duration bh d"
    using BlackHoleState_list_interval[OF assms, of d] BlackHoleState_list_duration[OF assms, of d]
    by simp
  moreover have "is_double 4" using is_double_Ints[of 4] by simp
  ultimately show ?thesis unfolding cycleLength_def by (intro fl_ge_double)
qed

lemma BlackHoleState_list_interval_positive:
  assumes "bh \<in> set BlackHoleState_list" "intervalUpgrades d \<le> 1000"
  shows "0 < interval bh d"
proof -
  obtain i where i: "i < 3" "bh = BlackHoleState_new i" using BlackHoleState_list_new[OF assms(1)] by blast
  define n where "n = intervalUpgrades d"
  define b where "b = fl (3600 / js_pow 10 i)"
  define p where "p = js_pow (fl (8 / 10)) n"
  define q :: real where "q = (1 / 2) ^ 1000"
  have q0: "0 < q" by (simp add: q_def)
  have qe: "q = of_int 1 / 2 ^ 1000" unfolding q_def by (simp only: power_one_over of_int_1)
  have dq: "is_double q" unfolding qe by (rule is_double_dyadic) simp_all
  have b: "1 \<le> b" using base_values(1)[OF i(1)] by (auto simp: b_def)
  have "q \<le> (1 / 2) ^ n" unfolding q_def using assms(2) by (intro power_decreasing) (simp_all add: n_def)
  also have "\<dots> \<le> fl (8 / 10) ^ n" using literal_bounds(2) by (intro power_mono) simp_all
  finally have "q \<le> p" unfolding p_def js_pow_def using dq by (intro fl_ge_double)
  then have "q * 1 \<le> p * b" using b q0 by (intro mult_mono) simp_all
  then have "q \<le> fl (b * p)" using dq by (intro fl_ge_double) (simp_all add: mult.commute)
  then have "0 < fl (b * p)" using q0 by linarith
  then show ?thesis by (simp add: i(2) interval_def BlackHoleState_new_def b_def p_def n_def)
qed

lemma js_pow_underflow:
  assumes "4070 \<le> n"
  shows "js_pow (fl (8 / 10)) n = 0"
proof -
  have "(13 / 16 :: real) ^ 11 \<le> 1 / 2 ^ 3" by (simp add: power_divide)
  then have "((13 / 16 :: real) ^ 11) ^ 370 \<le> (1 / 2 ^ 3) ^ 370" by (intro power_mono) simp_all
  moreover have "((13 / 16 :: real) ^ 11) ^ 370 = (13 / 16) ^ (11 * 370)" by (rule power_mult[symmetric])
  moreover have "(1 / (2::real) ^ 3) ^ 370 = 1 / (2 ^ 3) ^ 370" by (rule power_one_over)
  moreover have "((2::real) ^ 3) ^ 370 = 2 ^ (3 * 370)" by (rule power_mult[symmetric])
  moreover have "(11::nat) * 370 = 4070" "(3::nat) * 370 = 1110" by simp_all
  ultimately have a: "(13 / 16 :: real) ^ 4070 \<le> 1 / 2 ^ 1110" by (simp only:)
  have "0 \<le> fl (8 / 10)" using literal_bounds(2) by simp
  then have "fl (8 / 10) ^ n \<le> (13 / 16) ^ n" using literal_bounds(3) by (intro power_mono)
  also have "\<dots> \<le> (13 / 16) ^ 4070" using assms by (intro power_decreasing) simp_all
  also have "\<dots> \<le> 1 / 2 ^ 1110" by (rule a)
  also have "\<dots> = 2 powi (- 1110)" by (simp only: power_int_minus power_int_numeral inverse_eq_divide)
  also have "\<dots> < 2 powi (- 1075)" by (rule two_powi_strict_mono) simp
  finally have "fl (8 / 10) ^ n < 2 powi (- 1075)" .
  moreover have "0 \<le> fl (8 / 10) ^ n" using \<open>0 \<le> fl (8 / 10)\<close> by (rule zero_le_power)
  ultimately show ?thesis unfolding js_pow_def by (intro fl_underflow) simp
qed

lemma interval_underflow:
  assumes "4070 \<le> intervalUpgrades d"
  shows "interval (BlackHoleState_new i) d = 0"
  using js_pow_underflow[OF assms] by (simp add: interval_def BlackHoleState_new_def)

lemma id_bh_new [simp]: "id_bh (BlackHoleState_new i) = i + 1"
  by (simp add: BlackHoleState_new_def)

section \<open>Evaluation\<close>

text \<open>The definitions a concrete run unfolds.\<close>

lemmas model_defs = exactActiveTime_def exactTimeUntilNextDeactivation_def
      interval_def duration_def exactCycleLength_def isCharged_def BlackHoleState_new_def
      js_rem_def js_trunc_def exactUpdatePhase_def activePortion_def Let_def

lemmas whole_defs = realTimeWhileActive_whole updatePhase_whole


lemmas chain_defs = realTimePeriodsWithBlackHoleActive_def realTimePeriodsWithBlackHoleEffective_def
  BlackHoleState_list_def data_of_def isUnlocked_def calculateGameTimeFromRealTime_def
  calculateSpeedups_def js_sum_def

text \<open>
  A run of the offline tick shared by the examples below: the first black hole alone is
  unlocked, not charged, at phase 0 (interval 3600, duration 10); the speedup while it is
  active is 180. In 3616 seconds of real time the black hole is active for 10, and 5406
  seconds of game time pass.
\<close>

lemma example_speedups:
  "calculateSpeedups (\<lambda>b. case b of None \<Rightarrow> 1 | Some i \<Rightarrow> 180)
       \<lparr>blackHole = (\<lambda>i. if i = 0 then
            \<lparr>intervalUpgrades = 0, powerUpgrades = 0, durationUpgrades = 0, phase = 0,
             active = False, activations = 0, unlocked = True\<rparr>
          else
            \<lparr>intervalUpgrades = 0, powerUpgrades = 0, durationUpgrades = 0, phase = 0,
             active = False, activations = 0, unlocked = False\<rparr>),
        blackHolePause = False, enslavedIsRunning = False\<rparr> = [1, 180]"
  by (simp add: chain_defs model_defs)

lemma example_game_time:
  "calculateGameTimeFromRealTime
       \<lparr>blackHole = (\<lambda>i. if i = 0 then
            \<lparr>intervalUpgrades = 0, powerUpgrades = 0, durationUpgrades = 0, phase = 0,
             active = False, activations = 0, unlocked = True\<rparr>
          else
            \<lparr>intervalUpgrades = 0, powerUpgrades = 0, durationUpgrades = 0, phase = 0,
             active = False, activations = 0, unlocked = False\<rparr>),
        blackHolePause = False, enslavedIsRunning = False\<rparr> 1808 [1, 180] = 1808"
  "calculateGameTimeFromRealTime
       \<lparr>blackHole = (\<lambda>i. if i = 0 then
            \<lparr>intervalUpgrades = 0, powerUpgrades = 0, durationUpgrades = 0, phase = 0,
             active = False, activations = 0, unlocked = True\<rparr>
          else
            \<lparr>intervalUpgrades = 0, powerUpgrades = 0, durationUpgrades = 0, phase = 0,
             active = False, activations = 0, unlocked = False\<rparr>),
        blackHolePause = False, enslavedIsRunning = False\<rparr> 2712 [1, 180] = 2712"
  "calculateGameTimeFromRealTime
       \<lparr>blackHole = (\<lambda>i. if i = 0 then
            \<lparr>intervalUpgrades = 0, powerUpgrades = 0, durationUpgrades = 0, phase = 0,
             active = False, activations = 0, unlocked = True\<rparr>
          else
            \<lparr>intervalUpgrades = 0, powerUpgrades = 0, durationUpgrades = 0, phase = 0,
             active = False, activations = 0, unlocked = False\<rparr>),
        blackHolePause = False, enslavedIsRunning = False\<rparr> 3616 [1, 180] = 5406"
  by (simp_all add: chain_defs whole_defs model_defs)

lemma example_search:
  "binarySearch 0 3616
     (\<lambda>x. fl (fl (calculateGameTimeFromRealTime
       \<lparr>blackHole = (\<lambda>i. if i = 0 then
            \<lparr>intervalUpgrades = 0, powerUpgrades = 0, durationUpgrades = 0, phase = 0,
             active = False, activations = 0, unlocked = True\<rparr>
          else
            \<lparr>intervalUpgrades = 0, powerUpgrades = 0, durationUpgrades = 0, phase = 0,
             active = False, activations = 0, unlocked = False\<rparr>),
        blackHolePause = False, enslavedIsRunning = False\<rparr> x [1, 180] * 2) / 5406))
     1 (1 / 128) = Some 2712"
proof -
  define f where "f = (\<lambda>x. fl (fl (calculateGameTimeFromRealTime
       \<lparr>blackHole = (\<lambda>i. if i = (0::nat) then
            \<lparr>intervalUpgrades = 0, powerUpgrades = 0, durationUpgrades = 0, phase = 0,
             active = False, activations = 0, unlocked = True\<rparr>
          else
            \<lparr>intervalUpgrades = 0, powerUpgrades = 0, durationUpgrades = 0, phase = 0,
             active = False, activations = 0, unlocked = False\<rparr>),
        blackHolePause = False, enslavedIsRunning = False\<rparr> x [1, 180] * 2) / 5406))"
  have f1: "f 1808 = fl (1808 / 2703)" and f2: "f 2712 = fl (904 / 901)"
    by (simp_all add: f_def example_game_time)
  have d34: "is_double (3 / 4)" using is_double_dyadic[of 3 2] by simp
  have d14: "is_double (- (1 / 4))" using is_double_minus[OF is_double_dyadic[of 1 2]] by simp
  have d1: "is_double 1" using is_double_dyadic[of 1 0] by simp
  have d257: "is_double (257 / 256)" using is_double_dyadic[of 257 8] by simp
  have d256: "is_double (1 / 256)" using is_double_dyadic[of 1 8] by simp
  have "fl (1808 / 2703) \<le> 3 / 4" using d34 by (rule fl_le_double) simp
  then have e1: "fl (fl (1808 / 2703) - 1) \<le> - (1 / 4)" using d14 by (intro fl_le_double) simp_all
  have "1 \<le> fl (904 / 901)" using d1 by (rule fl_ge_double) simp
  moreover have "fl (904 / 901) \<le> 257 / 256" using d257 by (rule fl_le_double) simp
  ultimately have b: "0 \<le> fl (904 / 901) - 1" "fl (904 / 901) - 1 \<le> 1 / 256" by simp_all
  have e2: "0 \<le> fl (fl (904 / 901) - 1)" "fl (fl (904 / 901) - 1) \<le> 1 / 256"
    using b(1) fl_le_double[OF d256 b(2)] by (simp_all add: fl_nonneg)
  have m1: "fl (fl (0 + 3616) / 2) = 1808" and m2: "fl (fl (1808 + 3616) / 2) = 2712" by simp_all
  have "binarySearch 0 3616 f 1 (1 / 128) = binarySearch 1808 3616 f 1 (1 / 128)"
    using e1 by (simp add: binarySearch.simps[of 0 3616 f 1 "1 / 128"] Let_def f1)
  also have "\<dots> = Some 2712"
    unfolding binarySearch.simps[of 1808 3616 f 1 "1 / 128"] Let_def m2 f2 using e2 by simp
  finally show ?thesis unfolding f_def .
qed

text \<open>
  The binary64 values nearest to the decimal numbers 9.7, 0.3, 0.2, 0.1 and 26.2.
\<close>

lemma fl_97_10: "fl (97 / 10) = 2730307274093363 / 281474976710656"
proof -
  have "fl (97 / 10) = of_int (round_even (97 / 10 / 2 powi (3 - 52))) * 2 powi (3 - 52)"
    by (rule fl_eval) (simp_all add: power_int_minus)
  also have "round_even (97 / 10 / 2 powi (3 - 52)) = 5460614548186726"
    by (simp add: round_even_def power_int_minus divide_simps)
  finally show ?thesis by (simp add: power_int_minus)
qed

lemma fl_3_10: "fl (3 / 10) = 5404319552844595 / 18014398509481984"
proof -
  have "fl (3 / 10) = of_int (round_even (3 / 10 / 2 powi (- 2 - 52))) * 2 powi (- 2 - 52)"
    by (rule fl_eval) (simp_all add: power_int_minus)
  also have "round_even (3 / 10 / 2 powi (- 2 - 52)) = 5404319552844595"
    by (simp add: round_even_def power_int_minus divide_simps)
  finally show ?thesis by (simp add: power_int_minus)
qed

lemma fl_1_5: "fl (1 / 5) = 3602879701896397 / 18014398509481984"
proof -
  have "fl (1 / 5) = of_int (round_even (1 / 5 / 2 powi (- 3 - 52))) * 2 powi (- 3 - 52)"
    by (rule fl_eval) (simp_all add: power_int_minus)
  also have "round_even (1 / 5 / 2 powi (- 3 - 52)) = 7205759403792794"
    by (simp add: round_even_def power_int_minus divide_simps)
  finally show ?thesis by (simp add: power_int_minus)
qed

lemma fl_1_10: "fl (1 / 10) = 3602879701896397 / 36028797018963968"
proof -
  have "fl (1 / 10) = of_int (round_even (1 / 10 / 2 powi (- 4 - 52))) * 2 powi (- 4 - 52)"
    by (rule fl_eval) (simp_all add: power_int_minus)
  also have "round_even (1 / 10 / 2 powi (- 4 - 52)) = 7205759403792794"
    by (simp add: round_even_def power_int_minus divide_simps)
  finally show ?thesis by (simp add: power_int_minus)
qed

lemma fl_131_5: "fl (131 / 5) = 7374644389819187 / 281474976710656"
proof -
  have "fl (131 / 5) = of_int (round_even (131 / 5 / 2 powi (4 - 52))) * 2 powi (4 - 52)"
    by (rule fl_eval) (simp_all add: power_int_minus)
  also have "round_even (131 / 5 / 2 powi (4 - 52)) = 7374644389819187"
    by (simp add: round_even_def power_int_minus divide_simps)
  finally show ?thesis by (simp add: power_int_minus)
qed

text \<open>
  Three runs of \<open>realTimeWhileActive\<close> on the first black hole without upgrades
  (interval 3600, duration 10), charged, each operation rounded as the program rounds it:
  at phase 9.7 for the times 0.3 and 0.2, and at phase 0.1 for the time 26.2.
\<close>

lemma example_active_time_late:
  "realTimeWhileActive (BlackHoleState_new 0)
       \<lparr>intervalUpgrades = 0, powerUpgrades = 0, durationUpgrades = 0, phase = fl (97 / 10),
        active = True, activations = 0, unlocked = True\<rparr> (5404319552844595 / 18014398509481984) = - (2730307274093363 / 281474976710656)"
proof -
  define d where "d = \<lparr>intervalUpgrades = 0, powerUpgrades = 0, durationUpgrades = 0, phase = fl (97 / 10),
        active = True, activations = 0, unlocked = True\<rparr>"
  have iv: "interval (BlackHoleState_new 0) d = 3600" by (simp add: d_def interval_def BlackHoleState_new_def)
  have du: "duration (BlackHoleState_new 0) d = 10" by (simp add: d_def duration_def BlackHoleState_new_def)
  have cl: "cycleLength (BlackHoleState_new 0) d = 3610" by (simp add: cycleLength_def iv du)
  have ph: "phase d = (2730307274093363 / 281474976710656)" by (simp add: d_def fl_97_10)
  have ac: "isCharged d = True" by (simp add: d_def isCharged_def)
  have s1_a: "(10::real) - (2730307274093363 / 281474976710656) = (84442493013197 / 281474976710656)" by simp
  have s2: "fl (84442493013197 / 281474976710656) = (84442493013197 / 281474976710656)" using fl_dyadic[of 84442493013197 48] by simp
  have s1: "fl (10 - (2730307274093363 / 281474976710656)) = (84442493013197 / 281474976710656)" unfolding s1_a s2 ..
  have s3_a: "((5404319552844595 / 18014398509481984)::real) - (84442493013197 / 281474976710656) = - (13 / 18014398509481984)" by simp
  have s4: "fl (13 / 18014398509481984) = (13 / 18014398509481984)" using fl_dyadic[of 13 54] by simp
  have s5: "fl (- (13 / 18014398509481984)) = - (13 / 18014398509481984)" unfolding fl_minus s4 ..
  have s3: "fl ((5404319552844595 / 18014398509481984) - (84442493013197 / 281474976710656)) = - (13 / 18014398509481984)" unfolding s3_a s5 ..
  have s6: "\<lfloor>fl ((- (13 / 18014398509481984)) / 3610)\<rfloor> = - 1"
  proof -
    have lo: "is_double (- 1)" using is_double_Ints[of "- 1"] by simp
    have hi: "is_double (- (1 / 9223372036854775808))" using is_double_dyadic[of "- 1" 63] by simp
    have "- 1 \<le> fl ((- (13 / 18014398509481984)) / 3610)" using lo by (rule fl_ge_double) simp
    moreover have "fl ((- (13 / 18014398509481984)) / 3610) \<le> - (1 / 9223372036854775808)" using hi by (rule fl_le_double) simp
    ultimately show ?thesis by (simp add: floor_eq_iff)
  qed
  have s7_a: "real_of_int (- 1) = - 1" by simp
  have s8_a: "(10::real) * (- 1) = - 10" by simp
  have s9: "fl 10 = 10" by simp
  have s10: "fl (- 10) = - 10" unfolding fl_minus s9 ..
  have s8: "fl (10 * (- 1)) = - 10" unfolding s8_a s10 ..
  have s11_a: "((- (13 / 18014398509481984))::real) + 3610 = (65031978619229962227 / 18014398509481984)" by simp
  have s12: "fl (65031978619229962227 / 18014398509481984) = 3610"
  proof -
    have "fl (65031978619229962227 / 18014398509481984) = of_int (round_even ((65031978619229962227 / 18014398509481984) / 2 powi (11 - 52))) * 2 powi (11 - 52)"
      by (rule fl_eval) (simp_all add: power_int_minus)
    also have "round_even ((65031978619229962227 / 18014398509481984) / 2 powi (11 - 52)) = 7938473952542720"
      by (simp add: round_even_def power_int_minus divide_simps)
    finally show ?thesis by (simp add: power_int_minus)
  qed
  have s11: "fl ((- (13 / 18014398509481984)) + 3610) = 3610" unfolding s11_a s12 ..
  have s13: "js_rem 3610 3610 = 0" by (simp add: js_rem_def js_trunc_def)
  have s14_a: "(0::real) - 3600 = - 3600" by simp
  have s15: "fl 3600 = 3600" by simp
  have s16: "fl (- 3600) = - 3600" unfolding fl_minus s15 ..
  have s14: "fl (0 - 3600) = - 3600" unfolding s14_a s16 ..
  have s17: "max ((- 3600)::real) 0 = 0" by simp
  have s18: "min ((84442493013197 / 281474976710656)::real) 10 = (84442493013197 / 281474976710656)" by simp
  have s19_a: "((84442493013197 / 281474976710656)::real) + (- 10) = - (2730307274093363 / 281474976710656)" by simp
  have s20: "fl (2730307274093363 / 281474976710656) = (2730307274093363 / 281474976710656)" using fl_dyadic[of 2730307274093363 48] by simp
  have s21: "fl (- (2730307274093363 / 281474976710656)) = - (2730307274093363 / 281474976710656)" unfolding fl_minus s20 ..
  have s19: "fl ((84442493013197 / 281474976710656) + (- 10)) = - (2730307274093363 / 281474976710656)" unfolding s19_a s21 ..
  have s22_a: "((- (2730307274093363 / 281474976710656))::real) + 0 = - (2730307274093363 / 281474976710656)" by simp
  have s22: "fl ((- (2730307274093363 / 281474976710656)) + 0) = - (2730307274093363 / 281474976710656)" unfolding s22_a s21 ..
  have nd: "timeUntilNextDeactivation (BlackHoleState_new 0) d = (84442493013197 / 281474976710656)"
    unfolding timeUntilNextDeactivation_def ac du cl ph s1 by simp
  have "realTimeWhileActive (BlackHoleState_new 0) d (5404319552844595 / 18014398509481984) = - (2730307274093363 / 281474976710656)"
    unfolding realTimeWhileActive_def Let_def nd iv du cl
      s3 s6 s7_a s8 s11 s13 s14 s17 s18 s19 s22 ..
  then show ?thesis unfolding d_def .
qed

lemma example_active_time_early:
  "realTimeWhileActive (BlackHoleState_new 0)
       \<lparr>intervalUpgrades = 0, powerUpgrades = 0, durationUpgrades = 0, phase = fl (97 / 10),
        active = True, activations = 0, unlocked = True\<rparr> (3602879701896397 / 18014398509481984) = (56294995342157 / 281474976710656)"
proof -
  define d where "d = \<lparr>intervalUpgrades = 0, powerUpgrades = 0, durationUpgrades = 0, phase = fl (97 / 10),
        active = True, activations = 0, unlocked = True\<rparr>"
  have iv: "interval (BlackHoleState_new 0) d = 3600" by (simp add: d_def interval_def BlackHoleState_new_def)
  have du: "duration (BlackHoleState_new 0) d = 10" by (simp add: d_def duration_def BlackHoleState_new_def)
  have cl: "cycleLength (BlackHoleState_new 0) d = 3610" by (simp add: cycleLength_def iv du)
  have ph: "phase d = (2730307274093363 / 281474976710656)" by (simp add: d_def fl_97_10)
  have ac: "isCharged d = True" by (simp add: d_def isCharged_def)
  have s1_a: "(10::real) - (2730307274093363 / 281474976710656) = (84442493013197 / 281474976710656)" by simp
  have s2: "fl (84442493013197 / 281474976710656) = (84442493013197 / 281474976710656)" using fl_dyadic[of 84442493013197 48] by simp
  have s1: "fl (10 - (2730307274093363 / 281474976710656)) = (84442493013197 / 281474976710656)" unfolding s1_a s2 ..
  have s3_a: "((3602879701896397 / 18014398509481984)::real) - (84442493013197 / 281474976710656) = - (1801439850948211 / 18014398509481984)" by simp
  have s4: "fl (1801439850948211 / 18014398509481984) = (1801439850948211 / 18014398509481984)" using fl_dyadic[of 1801439850948211 54] by simp
  have s5: "fl (- (1801439850948211 / 18014398509481984)) = - (1801439850948211 / 18014398509481984)" unfolding fl_minus s4 ..
  have s3: "fl ((3602879701896397 / 18014398509481984) - (84442493013197 / 281474976710656)) = - (1801439850948211 / 18014398509481984)" unfolding s3_a s5 ..
  have s6: "\<lfloor>fl ((- (1801439850948211 / 18014398509481984)) / 3610)\<rfloor> = - 1"
  proof -
    have lo: "is_double (- 1)" using is_double_Ints[of "- 1"] by simp
    have hi: "is_double (- (1 / 65536))" using is_double_dyadic[of "- 1" 16] by simp
    have "- 1 \<le> fl ((- (1801439850948211 / 18014398509481984)) / 3610)" using lo by (rule fl_ge_double) simp
    moreover have "fl ((- (1801439850948211 / 18014398509481984)) / 3610) \<le> - (1 / 65536)" using hi by (rule fl_le_double) simp
    ultimately show ?thesis by (simp add: floor_eq_iff)
  qed
  have s7_a: "real_of_int (- 1) = - 1" by simp
  have s8_a: "(10::real) * (- 1) = - 10" by simp
  have s9: "fl 10 = 10" by simp
  have s10: "fl (- 10) = - 10" unfolding fl_minus s9 ..
  have s8: "fl (10 * (- 1)) = - 10" unfolding s8_a s10 ..
  have s11_a: "((- (1801439850948211 / 18014398509481984))::real) + 3610 = (65030177179379014029 / 18014398509481984)" by simp
  have s12: "fl (65030177179379014029 / 18014398509481984) = (7938254050217165 / 2199023255552)"
  proof -
    have "fl (65030177179379014029 / 18014398509481984) = of_int (round_even ((65030177179379014029 / 18014398509481984) / 2 powi (11 - 52))) * 2 powi (11 - 52)"
      by (rule fl_eval) (simp_all add: power_int_minus)
    also have "round_even ((65030177179379014029 / 18014398509481984) / 2 powi (11 - 52)) = 7938254050217165"
      by (simp add: round_even_def power_int_minus divide_simps)
    finally show ?thesis by (simp add: power_int_minus)
  qed
  have s11: "fl ((- (1801439850948211 / 18014398509481984)) + 3610) = (7938254050217165 / 2199023255552)" unfolding s11_a s12 ..
  have s13: "js_rem (7938254050217165 / 2199023255552) 3610 = (7938254050217165 / 2199023255552)" by (simp add: js_rem_def js_trunc_def)
  have s14_a: "((7938254050217165 / 2199023255552)::real) - 3600 = (21770330229965 / 2199023255552)" by simp
  have s15: "fl (21770330229965 / 2199023255552) = (21770330229965 / 2199023255552)" using fl_dyadic[of 21770330229965 41] by simp
  have s14: "fl ((7938254050217165 / 2199023255552) - 3600) = (21770330229965 / 2199023255552)" unfolding s14_a s15 ..
  have s16: "max ((21770330229965 / 2199023255552)::real) 0 = (21770330229965 / 2199023255552)" by simp
  have s17: "min ((84442493013197 / 281474976710656)::real) 10 = (84442493013197 / 281474976710656)" by simp
  have s18_a: "((84442493013197 / 281474976710656)::real) + (- 10) = - (2730307274093363 / 281474976710656)" by simp
  have s19: "fl (2730307274093363 / 281474976710656) = (2730307274093363 / 281474976710656)" using fl_dyadic[of 2730307274093363 48] by simp
  have s20: "fl (- (2730307274093363 / 281474976710656)) = - (2730307274093363 / 281474976710656)" unfolding fl_minus s19 ..
  have s18: "fl ((84442493013197 / 281474976710656) + (- 10)) = - (2730307274093363 / 281474976710656)" unfolding s18_a s20 ..
  have s21_a: "((- (2730307274093363 / 281474976710656))::real) + (21770330229965 / 2199023255552) = (56294995342157 / 281474976710656)" by simp
  have s22: "fl (56294995342157 / 281474976710656) = (56294995342157 / 281474976710656)" using fl_dyadic[of 56294995342157 48] by simp
  have s21: "fl ((- (2730307274093363 / 281474976710656)) + (21770330229965 / 2199023255552)) = (56294995342157 / 281474976710656)" unfolding s21_a s22 ..
  have nd: "timeUntilNextDeactivation (BlackHoleState_new 0) d = (84442493013197 / 281474976710656)"
    unfolding timeUntilNextDeactivation_def ac du cl ph s1 by simp
  have "realTimeWhileActive (BlackHoleState_new 0) d (3602879701896397 / 18014398509481984) = (56294995342157 / 281474976710656)"
    unfolding realTimeWhileActive_def Let_def nd iv du cl
      s3 s6 s7_a s8 s11 s13 s14 s16 s17 s18 s21 ..
  then show ?thesis unfolding d_def .
qed

lemma example_active_time_decimal:
  "realTimeWhileActive (BlackHoleState_new 0)
       \<lparr>intervalUpgrades = 0, powerUpgrades = 0, durationUpgrades = 0, phase = fl (1 / 10),
        active = True, activations = 0, unlocked = True\<rparr> (7374644389819187 / 281474976710656) = (5573204538870989 / 562949953421312)"
proof -
  define d where "d = \<lparr>intervalUpgrades = 0, powerUpgrades = 0, durationUpgrades = 0, phase = fl (1 / 10),
        active = True, activations = 0, unlocked = True\<rparr>"
  have iv: "interval (BlackHoleState_new 0) d = 3600" by (simp add: d_def interval_def BlackHoleState_new_def)
  have du: "duration (BlackHoleState_new 0) d = 10" by (simp add: d_def duration_def BlackHoleState_new_def)
  have cl: "cycleLength (BlackHoleState_new 0) d = 3610" by (simp add: cycleLength_def iv du)
  have ph: "phase d = (3602879701896397 / 36028797018963968)" by (simp add: d_def fl_1_10)
  have ac: "isCharged d = True" by (simp add: d_def isCharged_def)
  have s1_a: "(10::real) - (3602879701896397 / 36028797018963968) = (356685090487743283 / 36028797018963968)" by simp
  have s2: "fl (356685090487743283 / 36028797018963968) = (5573204538870989 / 562949953421312)"
  proof -
    have "fl (356685090487743283 / 36028797018963968) = of_int (round_even ((356685090487743283 / 36028797018963968) / 2 powi (3 - 52))) * 2 powi (3 - 52)"
      by (rule fl_eval) (simp_all add: power_int_minus)
    also have "round_even ((356685090487743283 / 36028797018963968) / 2 powi (3 - 52)) = 5573204538870989"
      by (simp add: round_even_def power_int_minus divide_simps)
    finally show ?thesis by (simp add: power_int_minus)
  qed
  have s1: "fl (10 - (3602879701896397 / 36028797018963968)) = (5573204538870989 / 562949953421312)" unfolding s1_a s2 ..
  have s3_a: "((7374644389819187 / 281474976710656)::real) - (5573204538870989 / 562949953421312) = (9176084240767385 / 562949953421312)" by simp
  have s4: "fl (9176084240767385 / 562949953421312) = (1147010530095923 / 70368744177664)"
  proof -
    have "fl (9176084240767385 / 562949953421312) = of_int (round_even ((9176084240767385 / 562949953421312) / 2 powi (4 - 52))) * 2 powi (4 - 52)"
      by (rule fl_eval) (simp_all add: power_int_minus)
    also have "round_even ((9176084240767385 / 562949953421312) / 2 powi (4 - 52)) = 4588042120383692"
      by (simp add: round_even_def power_int_minus divide_simps)
    finally show ?thesis by (simp add: power_int_minus)
  qed
  have s3: "fl ((7374644389819187 / 281474976710656) - (5573204538870989 / 562949953421312)) = (1147010530095923 / 70368744177664)" unfolding s3_a s4 ..
  have s5: "\<lfloor>fl ((1147010530095923 / 70368744177664) / 3610)\<rfloor> = 0"
  proof -
    have lo: "is_double 0" using is_double_Ints[of "0"] by simp
    have hi: "is_double (1 / 2)" using is_double_dyadic[of "1" 1] by simp
    have "0 \<le> fl ((1147010530095923 / 70368744177664) / 3610)" using lo by (rule fl_ge_double) simp
    moreover have "fl ((1147010530095923 / 70368744177664) / 3610) \<le> (1 / 2)" using hi by (rule fl_le_double) simp
    ultimately show ?thesis by (simp add: floor_eq_iff)
  qed
  have s6_a: "real_of_int 0 = 0" by simp
  have s7: "fl (10 * 0) = 0" by simp
  have s8_a: "((1147010530095923 / 70368744177664)::real) + 3610 = (255178177011462963 / 70368744177664)" by simp
  have s9: "fl (255178177011462963 / 70368744177664) = (3987159015804109 / 1099511627776)"
  proof -
    have "fl (255178177011462963 / 70368744177664) = of_int (round_even ((255178177011462963 / 70368744177664) / 2 powi (11 - 52))) * 2 powi (11 - 52)"
      by (rule fl_eval) (simp_all add: power_int_minus)
    also have "round_even ((255178177011462963 / 70368744177664) / 2 powi (11 - 52)) = 7974318031608218"
      by (simp add: round_even_def power_int_minus divide_simps)
    finally show ?thesis by (simp add: power_int_minus)
  qed
  have s8: "fl ((1147010530095923 / 70368744177664) + 3610) = (3987159015804109 / 1099511627776)" unfolding s8_a s9 ..
  have s10: "js_rem (3987159015804109 / 1099511627776) 3610 = (17922039532749 / 1099511627776)" by (simp add: js_rem_def js_trunc_def)
  have s11_a: "((17922039532749 / 1099511627776)::real) - 3600 = - (3940319820460851 / 1099511627776)" by simp
  have s12: "fl (3940319820460851 / 1099511627776) = (3940319820460851 / 1099511627776)" using fl_dyadic[of 3940319820460851 40] by simp
  have s13: "fl (- (3940319820460851 / 1099511627776)) = - (3940319820460851 / 1099511627776)" unfolding fl_minus s12 ..
  have s11: "fl ((17922039532749 / 1099511627776) - 3600) = - (3940319820460851 / 1099511627776)" unfolding s11_a s13 ..
  have s14: "max ((- (3940319820460851 / 1099511627776))::real) 0 = 0" by simp
  have s15: "min ((5573204538870989 / 562949953421312)::real) 10 = (5573204538870989 / 562949953421312)" by simp
  have s16_a: "((5573204538870989 / 562949953421312)::real) + 0 = (5573204538870989 / 562949953421312)" by simp
  have s17: "fl (5573204538870989 / 562949953421312) = (5573204538870989 / 562949953421312)" using fl_dyadic[of 5573204538870989 49] by simp
  have s16: "fl ((5573204538870989 / 562949953421312) + 0) = (5573204538870989 / 562949953421312)" unfolding s16_a s17 ..
  have s18_a: "((5573204538870989 / 562949953421312)::real) + 0 = (5573204538870989 / 562949953421312)" by simp
  have s18: "fl ((5573204538870989 / 562949953421312) + 0) = (5573204538870989 / 562949953421312)" unfolding s18_a s17 ..
  have nd: "timeUntilNextDeactivation (BlackHoleState_new 0) d = (5573204538870989 / 562949953421312)"
    unfolding timeUntilNextDeactivation_def ac du cl ph s1 by simp
  have "realTimeWhileActive (BlackHoleState_new 0) d (7374644389819187 / 281474976710656) = (5573204538870989 / 562949953421312)"
    unfolding realTimeWhileActive_def Let_def nd iv du cl
      s3 s5 s6_a s7 s8 s10 s11 s14 s15 s16 s18 ..
  then show ?thesis unfolding d_def .
qed

section \<open>C1: the closed form against the stepwise simulation\<close>




section \<open>C2: the phase stays inside the cycle\<close>

text \<open>
  C2. For every black hole with a positive interval and a positive duration whose phase is
  at least 0 and below its cycle length, and for every sequence of calls of \<open>updatePhase\<close>
  with elapsed amounts that are not negative, however large: after the calls the phase is
  again at least 0 and below the cycle length. The sequence is arbitrary, so this is the
  state after every call. The rounding of the program does not disturb this: the remainder
  is exact, and the one subtraction that may follow it is rounded to a value between 0 and
  the phase it started from.
\<close>

theorem updatePhase_keeps_phase_in_cycle:
  assumes "0 < interval bh d" "0 < duration bh d"
    and "0 \<le> phase d" "phase d < cycleLength bh d"
    and "\<forall>activePeriod\<in>set activePeriods. 0 \<le> activePeriod"
  shows "0 \<le> phase (foldl (\<lambda>d' activePeriod. fst (updatePhase showBH bh d' activePeriod)) d activePeriods)
       \<and> phase (foldl (\<lambda>d' activePeriod. fst (updatePhase showBH bh d' activePeriod)) d activePeriods)
           < cycleLength bh
               (foldl (\<lambda>d' activePeriod. fst (updatePhase showBH bh d' activePeriod)) d activePeriods)"
  using assms
proof (induction activePeriods arbitrary: d)
  case Nil
  then show ?case by simp
next
  case (Cons a rest)
  define d1 where "d1 = fst (updatePhase showBH bh d a)"
  have a: "0 \<le> phase d + a" using Cons.prems by simp
  have C: "0 < cycleLength bh d" using Cons.prems(3,4) by simp
  have "0 \<le> phase d1 \<and> phase d1 < cycleLength bh d"
    unfolding d1_def using Cons.prems(1,2) C a by (rule updatePhase_phase_in_cycle)
  moreover have "interval bh d1 = interval bh d" "duration bh d1 = duration bh d"
    "cycleLength bh d1 = cycleLength bh d" by (simp_all add: d1_def)
  ultimately have "0 \<le> phase (foldl (\<lambda>d' activePeriod. fst (updatePhase showBH bh d' activePeriod)) d1 rest)
       \<and> phase (foldl (\<lambda>d' activePeriod. fst (updatePhase showBH bh d' activePeriod)) d1 rest)
           < cycleLength bh (foldl (\<lambda>d' activePeriod. fst (updatePhase showBH bh d' activePeriod)) d1 rest)"
    using Cons.prems by (intro Cons.IH) simp_all
  then show ?case by (simp add: d1_def)
qed

text \<open>
  C2 on a run of three calls from phase 0: two full cycles of 3610 and 10 more, then 3595,
  which switches the black hole on, then five million.
\<close>

theorem updatePhase_keeps_phase_in_cycle_witness:
  "foldl (\<lambda>d' activePeriod. fst (updatePhase True (BlackHoleState_new 0) d' activePeriod))
       \<lparr>intervalUpgrades = 0, powerUpgrades = 0, durationUpgrades = 0, phase = 0,
        active = False, activations = 0, unlocked = True\<rparr> [7230, 3595, 5000000]
     = \<lparr>intervalUpgrades = 0, powerUpgrades = 0, durationUpgrades = 0, phase = 145,
        active = False, activations = 1388, unlocked = True\<rparr>
   \<and> 0 \<le> phase (foldl (\<lambda>d' activePeriod. fst (updatePhase True (BlackHoleState_new 0) d' activePeriod))
       \<lparr>intervalUpgrades = 0, powerUpgrades = 0, durationUpgrades = 0, phase = 0,
        active = False, activations = 0, unlocked = True\<rparr> [7230, 3595, 5000000])
   \<and> phase (foldl (\<lambda>d' activePeriod. fst (updatePhase True (BlackHoleState_new 0) d' activePeriod))
       \<lparr>intervalUpgrades = 0, powerUpgrades = 0, durationUpgrades = 0, phase = 0,
        active = False, activations = 0, unlocked = True\<rparr> [7230, 3595, 5000000])
       < cycleLength (BlackHoleState_new 0)
          (foldl (\<lambda>d' activePeriod. fst (updatePhase True (BlackHoleState_new 0) d' activePeriod))
       \<lparr>intervalUpgrades = 0, powerUpgrades = 0, durationUpgrades = 0, phase = 0,
        active = False, activations = 0, unlocked = True\<rparr> [7230, 3595, 5000000])"
proof -
  define d where "d = \<lparr>intervalUpgrades = 0, powerUpgrades = 0, durationUpgrades = 0,
        phase = 0, active = False, activations = 0, unlocked = True\<rparr>"
  define step where "step = (\<lambda>d' activePeriod. fst (updatePhase True (BlackHoleState_new 0) d' activePeriod))"
  have "0 \<le> phase (foldl step d [7230, 3595, 5000000])
       \<and> phase (foldl step d [7230, 3595, 5000000])
           < cycleLength (BlackHoleState_new 0) (foldl step d [7230, 3595, 5000000])"
    unfolding step_def
    by (rule updatePhase_keeps_phase_in_cycle) (simp_all add: d_def cycleLength_def model_defs)
  moreover have "foldl step d [7230, 3595, 5000000] = d\<lparr>phase := 145, activations := 1388\<rparr>"
    by (simp add: step_def d_def whole_defs model_defs)
  ultimately show ?thesis unfolding d_def step_def by (simp add: cycleLength_def interval_def duration_def)
qed

section \<open>C3: what the search returns\<close>

text \<open>
  C3. Whenever \<open>calculateOfflineTick\<close> with more than one tick returns a pair, the game
  time of the returned tick time, times the number of ticks, over the total game time, is
  within the tolerance of 1, and the returned rate is the game time of the tick time over the
  tick time; the product, the quotients and the difference are those of the program. A
  tolerance of the program is a binary64 value, and then the quotient itself is within the
  tolerance of 1.
\<close>

theorem calculateOfflineTick_search_correct:
  assumes "1 < numberOfTicks"
    and "calculateOfflineTick factor g totalRealTime numberOfTicks tolerance = Some (x, rate)"
  shows "\<bar>fl (fl (fl (calculateGameTimeFromRealTime g x (calculateSpeedups factor g) * numberOfTicks)
               / calculateGameTimeFromRealTime g totalRealTime (calculateSpeedups factor g)) - 1)\<bar>
         < tolerance
       \<and> (is_double tolerance \<longrightarrow>
           \<bar>fl (fl (calculateGameTimeFromRealTime g x (calculateSpeedups factor g) * numberOfTicks)
               / calculateGameTimeFromRealTime g totalRealTime (calculateSpeedups factor g)) - 1\<bar>
           < tolerance)
       \<and> rate = fl (calculateGameTimeFromRealTime g x (calculateSpeedups factor g) / x)"
proof -
  define speedups where "speedups = calculateSpeedups factor g"
  define f where "f = (\<lambda>y. fl (fl (calculateGameTimeFromRealTime g y speedups * numberOfTicks)
                          / calculateGameTimeFromRealTime g totalRealTime speedups))"
  have s: "binarySearch 0 totalRealTime f 1 tolerance = Some x"
    and r: "rate = fl (calculateGameTimeFromRealTime g x speedups / x)"
    using assms by (auto simp: calculateOfflineTick_def Let_def speedups_def f_def split: option.splits)
  have e: "\<bar>fl (f x - 1)\<bar> < tolerance" using s by (rule binarySearch_within_tolerance)
  then have "is_double tolerance \<longrightarrow> \<bar>f x - 1\<bar> < tolerance" using abs_fl_less_double by blast
  then show ?thesis using e r by (simp add: f_def speedups_def)
qed

text \<open>
  C3 on a run that returns: 3616 seconds in 2 ticks with tolerance 1/128. The first median,
  1808, has too little game time; the second, 2712, is within tolerance.
\<close>

theorem calculateOfflineTick_search_correct_witness:
  "calculateOfflineTick (\<lambda>b. case b of None \<Rightarrow> 1 | Some i \<Rightarrow> 180)
       \<lparr>blackHole = (\<lambda>i. if i = 0 then
            \<lparr>intervalUpgrades = 0, powerUpgrades = 0, durationUpgrades = 0, phase = 0,
             active = False, activations = 0, unlocked = True\<rparr>
          else
            \<lparr>intervalUpgrades = 0, powerUpgrades = 0, durationUpgrades = 0, phase = 0,
             active = False, activations = 0, unlocked = False\<rparr>),
        blackHolePause = False, enslavedIsRunning = False\<rparr> 3616 2 (1 / 128)
     = Some (2712, 1)
   \<and> \<bar>fl (fl (fl (calculateGameTimeFromRealTime
       \<lparr>blackHole = (\<lambda>i. if i = 0 then
            \<lparr>intervalUpgrades = 0, powerUpgrades = 0, durationUpgrades = 0, phase = 0,
             active = False, activations = 0, unlocked = True\<rparr>
          else
            \<lparr>intervalUpgrades = 0, powerUpgrades = 0, durationUpgrades = 0, phase = 0,
             active = False, activations = 0, unlocked = False\<rparr>),
        blackHolePause = False, enslavedIsRunning = False\<rparr> 2712 [1, 180] * 2)
      / calculateGameTimeFromRealTime
       \<lparr>blackHole = (\<lambda>i. if i = 0 then
            \<lparr>intervalUpgrades = 0, powerUpgrades = 0, durationUpgrades = 0, phase = 0,
             active = False, activations = 0, unlocked = True\<rparr>
          else
            \<lparr>intervalUpgrades = 0, powerUpgrades = 0, durationUpgrades = 0, phase = 0,
             active = False, activations = 0, unlocked = False\<rparr>),
        blackHolePause = False, enslavedIsRunning = False\<rparr> 3616 [1, 180]) - 1)\<bar> < 1 / 128
   \<and> \<bar>fl (fl (calculateGameTimeFromRealTime
       \<lparr>blackHole = (\<lambda>i. if i = 0 then
            \<lparr>intervalUpgrades = 0, powerUpgrades = 0, durationUpgrades = 0, phase = 0,
             active = False, activations = 0, unlocked = True\<rparr>
          else
            \<lparr>intervalUpgrades = 0, powerUpgrades = 0, durationUpgrades = 0, phase = 0,
             active = False, activations = 0, unlocked = False\<rparr>),
        blackHolePause = False, enslavedIsRunning = False\<rparr> 2712 [1, 180] * 2)
      / calculateGameTimeFromRealTime
       \<lparr>blackHole = (\<lambda>i. if i = 0 then
            \<lparr>intervalUpgrades = 0, powerUpgrades = 0, durationUpgrades = 0, phase = 0,
             active = False, activations = 0, unlocked = True\<rparr>
          else
            \<lparr>intervalUpgrades = 0, powerUpgrades = 0, durationUpgrades = 0, phase = 0,
             active = False, activations = 0, unlocked = False\<rparr>),
        blackHolePause = False, enslavedIsRunning = False\<rparr> 3616 [1, 180]) - 1\<bar> < 1 / 128"
proof -
  define g where "g = \<lparr>blackHole = (\<lambda>i. if i = (0::nat) then
            \<lparr>intervalUpgrades = 0, powerUpgrades = 0, durationUpgrades = 0, phase = 0,
             active = False, activations = 0, unlocked = True\<rparr>
          else
            \<lparr>intervalUpgrades = 0, powerUpgrades = 0, durationUpgrades = 0, phase = 0,
             active = False, activations = 0, unlocked = False\<rparr>),
        blackHolePause = False, enslavedIsRunning = False\<rparr>"
  define factor :: "nat option \<Rightarrow> real" where "factor = (\<lambda>b. case b of None \<Rightarrow> 1 | Some i \<Rightarrow> 180)"
  have sp: "calculateSpeedups factor g = [1, 180]"
    unfolding g_def factor_def by (rule example_speedups)
  have total: "calculateGameTimeFromRealTime g 3616 [1, 180] = 5406"
    unfolding g_def by (rule example_game_time)
  have tick: "calculateGameTimeFromRealTime g 2712 [1, 180] = 2712"
    unfolding g_def by (rule example_game_time)
  have search: "binarySearch 0 3616 (\<lambda>x. fl (fl (calculateGameTimeFromRealTime g x [1, 180] * 2) / 5406))
      1 (1 / 128) = Some 2712"
    unfolding g_def by (rule example_search)
  have run: "calculateOfflineTick factor g 3616 2 (1 / 128) = Some (2712, 1)"
    unfolding calculateOfflineTick_def Let_def sp total search by (simp add: tick)
  have two: "(1::real) < 2" by simp
  have tol: "is_double (1 / 128)" using is_double_dyadic[of 1 7] by simp
  have "\<bar>fl (fl (fl (calculateGameTimeFromRealTime g 2712 [1, 180] * 2)
           / calculateGameTimeFromRealTime g 3616 [1, 180]) - 1)\<bar> < 1 / 128
      \<and> \<bar>fl (fl (calculateGameTimeFromRealTime g 2712 [1, 180] * 2)
           / calculateGameTimeFromRealTime g 3616 [1, 180]) - 1\<bar> < 1 / 128"
    using calculateOfflineTick_search_correct[OF two run] tol unfolding sp by blast
  then show ?thesis using run unfolding g_def factor_def by blast
qed

section \<open>C4: more host time, no less active time\<close>

text \<open>
  C4 asks that \<open>realTimeWhileActive\<close> never decreases when its argument grows. In exact
  arithmetic the closed form is monotone (\<open>exactActiveTime_mono\<close>). The program rounds:
  the number of cycles is the floor of the rounded \<open>(time - nextDeactivation) / fullCycle\<close>,
  while the time left is the remainder of the rounded \<open>time - nextDeactivation + fullCycle\<close>.
  When \<open>time - nextDeactivation\<close> is negative and tiny, the floor is \<open>- 1\<close> and the sum
  rounds to \<open>fullCycle\<close>, whose remainder is 0 and not nearly \<open>fullCycle\<close>: a whole
  duration is lost.

  The first black hole without upgrades (interval 3600, duration 10), charged at phase 9.7,
  satisfies the hypotheses of C4. For the time 0.2 the program returns 0.2000000000000917,
  for the later time 0.3 it returns \<open>- 9.7\<close>, where the closed form in exact arithmetic has
  0.3. The decimal numbers are the binary64 values nearest to them.
\<close>

theorem realTimeWhileActive_not_monotone:
  "0 < interval (BlackHoleState_new 0) \<lparr>intervalUpgrades = 0, powerUpgrades = 0, durationUpgrades = 0, phase = fl (97 / 10),
        active = True, activations = 0, unlocked = True\<rparr>
   \<and> 0 < duration (BlackHoleState_new 0) \<lparr>intervalUpgrades = 0, powerUpgrades = 0, durationUpgrades = 0, phase = fl (97 / 10),
        active = True, activations = 0, unlocked = True\<rparr>
   \<and> 0 \<le> phase \<lparr>intervalUpgrades = 0, powerUpgrades = 0, durationUpgrades = 0, phase = fl (97 / 10),
        active = True, activations = 0, unlocked = True\<rparr>
   \<and> phase \<lparr>intervalUpgrades = 0, powerUpgrades = 0, durationUpgrades = 0, phase = fl (97 / 10),
        active = True, activations = 0, unlocked = True\<rparr>
       < cycleLength (BlackHoleState_new 0) \<lparr>intervalUpgrades = 0, powerUpgrades = 0, durationUpgrades = 0, phase = fl (97 / 10),
        active = True, activations = 0, unlocked = True\<rparr>
   \<and> 0 \<le> fl (1 / 5) \<and> fl (1 / 5) \<le> fl (3 / 10)
   \<and> realTimeWhileActive (BlackHoleState_new 0) \<lparr>intervalUpgrades = 0, powerUpgrades = 0, durationUpgrades = 0, phase = fl (97 / 10),
        active = True, activations = 0, unlocked = True\<rparr> (fl (1 / 5))
       = 56294995342157 / 281474976710656
   \<and> realTimeWhileActive (BlackHoleState_new 0) \<lparr>intervalUpgrades = 0, powerUpgrades = 0, durationUpgrades = 0, phase = fl (97 / 10),
        active = True, activations = 0, unlocked = True\<rparr> (fl (3 / 10))
       = - fl (97 / 10)
   \<and> realTimeWhileActive (BlackHoleState_new 0) \<lparr>intervalUpgrades = 0, powerUpgrades = 0, durationUpgrades = 0, phase = fl (97 / 10),
        active = True, activations = 0, unlocked = True\<rparr> (fl (3 / 10))
       < realTimeWhileActive (BlackHoleState_new 0) \<lparr>intervalUpgrades = 0, powerUpgrades = 0, durationUpgrades = 0, phase = fl (97 / 10),
        active = True, activations = 0, unlocked = True\<rparr> (fl (1 / 5))
   \<and> exactActiveTime (BlackHoleState_new 0) \<lparr>intervalUpgrades = 0, powerUpgrades = 0, durationUpgrades = 0, phase = fl (97 / 10),
        active = True, activations = 0, unlocked = True\<rparr> (fl (3 / 10))
       = fl (3 / 10)"
proof -
  have early: "realTimeWhileActive (BlackHoleState_new 0) \<lparr>intervalUpgrades = 0, powerUpgrades = 0, durationUpgrades = 0, phase = fl (97 / 10),
        active = True, activations = 0, unlocked = True\<rparr> (fl (1 / 5))
       = 56294995342157 / 281474976710656"
    using example_active_time_early unfolding fl_1_5 fl_97_10 .
  have late: "realTimeWhileActive (BlackHoleState_new 0) \<lparr>intervalUpgrades = 0, powerUpgrades = 0, durationUpgrades = 0, phase = fl (97 / 10),
        active = True, activations = 0, unlocked = True\<rparr> (fl (3 / 10))
       = - fl (97 / 10)"
    using example_active_time_late unfolding fl_3_10 fl_97_10 .
  have exact: "exactActiveTime (BlackHoleState_new 0) \<lparr>intervalUpgrades = 0, powerUpgrades = 0, durationUpgrades = 0, phase = fl (97 / 10),
        active = True, activations = 0, unlocked = True\<rparr> (fl (3 / 10))
       = fl (3 / 10)"
    by (simp add: fl_3_10 fl_97_10 model_defs)
  have hyps: "0 < interval (BlackHoleState_new 0) \<lparr>intervalUpgrades = 0, powerUpgrades = 0, durationUpgrades = 0, phase = fl (97 / 10),
        active = True, activations = 0, unlocked = True\<rparr>
   \<and> 0 < duration (BlackHoleState_new 0) \<lparr>intervalUpgrades = 0, powerUpgrades = 0, durationUpgrades = 0, phase = fl (97 / 10),
        active = True, activations = 0, unlocked = True\<rparr>
   \<and> 0 \<le> phase \<lparr>intervalUpgrades = 0, powerUpgrades = 0, durationUpgrades = 0, phase = fl (97 / 10),
        active = True, activations = 0, unlocked = True\<rparr>
   \<and> phase \<lparr>intervalUpgrades = 0, powerUpgrades = 0, durationUpgrades = 0, phase = fl (97 / 10),
        active = True, activations = 0, unlocked = True\<rparr>
       < cycleLength (BlackHoleState_new 0) \<lparr>intervalUpgrades = 0, powerUpgrades = 0, durationUpgrades = 0, phase = fl (97 / 10),
        active = True, activations = 0, unlocked = True\<rparr>"
    by (simp add: fl_97_10 cycleLength_def interval_def duration_def BlackHoleState_new_def)
  have times: "0 \<le> fl (1 / 5) \<and> fl (1 / 5) \<le> fl (3 / 10)"
    by (simp add: fl_1_5 fl_3_10)
  have less: "realTimeWhileActive (BlackHoleState_new 0) \<lparr>intervalUpgrades = 0, powerUpgrades = 0, durationUpgrades = 0, phase = fl (97 / 10),
        active = True, activations = 0, unlocked = True\<rparr> (fl (3 / 10))
       < realTimeWhileActive (BlackHoleState_new 0) \<lparr>intervalUpgrades = 0, powerUpgrades = 0, durationUpgrades = 0, phase = fl (97 / 10),
        active = True, activations = 0, unlocked = True\<rparr> (fl (1 / 5))"
    unfolding early late by (simp add: fl_97_10)
  show ?thesis using hyps times early late less exact by blast
qed

section \<open>C5: the effective periods add up to the real time\<close>

text \<open>
  C5, as amended. For every state of the game and every real time, the sum of the elements
  of \<open>realTimePeriodsWithBlackHoleEffective\<close> differs from the real time by at most the
  rounding errors of the differences of consecutive active periods, each at most the
  difference over \<open>2 ^ 53\<close> plus \<open>2 powi - 1075\<close>; it is the real time when every one of
  these differences is a binary64 value.
\<close>

theorem effective_periods_sum_to_real_time:
  "\<bar>sum_list (realTimePeriodsWithBlackHoleEffective g t) - t\<bar>
     \<le> sum_list (map (\<lambda>i. roundingBound (realTimePeriodsWithBlackHoleActive g t ! i
                                           - realTimePeriodsWithBlackHoleActive g t ! (i + 1)))
                  [0 ..< length (realTimePeriodsWithBlackHoleActive g t) - 1])
   \<and> ((\<forall>i < length (realTimePeriodsWithBlackHoleActive g t) - 1.
          is_double (realTimePeriodsWithBlackHoleActive g t ! i
                     - realTimePeriodsWithBlackHoleActive g t ! (i + 1)))
       \<longrightarrow> sum_list (realTimePeriodsWithBlackHoleEffective g t) = t)"
  unfolding realTimePeriodsWithBlackHoleEffective_def Let_def
  using rounded_differences_error[OF realTimePeriodsWithBlackHoleActive_shape(1), of g t]
    unrounded_differences_sum[OF realTimePeriodsWithBlackHoleActive_shape(1), of g t]
    realTimePeriodsWithBlackHoleActive_shape(2)[of g t] by simp

text \<open>
  The amended C5 on a run with two unlocked black holes: 4000 seconds, of which the first
  black hole is active for 20 and the second for 5. No difference is rounded.
\<close>

theorem effective_periods_sum_to_real_time_witness:
  "realTimePeriodsWithBlackHoleEffective
       \<lparr>blackHole = (\<lambda>i. if i = 0 then
            \<lparr>intervalUpgrades = 0, powerUpgrades = 0, durationUpgrades = 0, phase = 3595,
             active = False, activations = 0, unlocked = True\<rparr>
          else if i = 1 then
            \<lparr>intervalUpgrades = 0, powerUpgrades = 0, durationUpgrades = 0, phase = 2,
             active = True, activations = 0, unlocked = True\<rparr>
          else
            \<lparr>intervalUpgrades = 0, powerUpgrades = 0, durationUpgrades = 0, phase = 0,
             active = False, activations = 0, unlocked = False\<rparr>),
        blackHolePause = False, enslavedIsRunning = False\<rparr> 4000 = [3980, 15, 5]
   \<and> sum_list (realTimePeriodsWithBlackHoleEffective
       \<lparr>blackHole = (\<lambda>i. if i = 0 then
            \<lparr>intervalUpgrades = 0, powerUpgrades = 0, durationUpgrades = 0, phase = 3595,
             active = False, activations = 0, unlocked = True\<rparr>
          else if i = 1 then
            \<lparr>intervalUpgrades = 0, powerUpgrades = 0, durationUpgrades = 0, phase = 2,
             active = True, activations = 0, unlocked = True\<rparr>
          else
            \<lparr>intervalUpgrades = 0, powerUpgrades = 0, durationUpgrades = 0, phase = 0,
             active = False, activations = 0, unlocked = False\<rparr>),
        blackHolePause = False, enslavedIsRunning = False\<rparr> 4000) = 4000"
proof -
  define g where "g = \<lparr>blackHole = (\<lambda>i. if i = (0::nat) then
            \<lparr>intervalUpgrades = 0, powerUpgrades = 0, durationUpgrades = 0, phase = 3595,
             active = False, activations = 0, unlocked = True\<rparr>
          else if i = 1 then
            \<lparr>intervalUpgrades = 0, powerUpgrades = 0, durationUpgrades = 0, phase = 2,
             active = True, activations = 0, unlocked = True\<rparr>
          else
            \<lparr>intervalUpgrades = 0, powerUpgrades = 0, durationUpgrades = 0, phase = 0,
             active = False, activations = 0, unlocked = False\<rparr>),
        blackHolePause = False, enslavedIsRunning = False\<rparr>"
  have a: "realTimePeriodsWithBlackHoleActive g 4000 = [4000, 20, 5]"
    by (simp add: g_def chain_defs whole_defs model_defs js_pow_def)
  have e: "realTimePeriodsWithBlackHoleEffective g 4000 = [3980, 15, 5]"
    unfolding realTimePeriodsWithBlackHoleEffective_def a by simp
  have "\<forall>i < length (realTimePeriodsWithBlackHoleActive g 4000) - 1.
          is_double (realTimePeriodsWithBlackHoleActive g 4000 ! i
                     - realTimePeriodsWithBlackHoleActive g 4000 ! (i + 1))"
  proof (intro allI impI)
    fix i
    assume "i < length (realTimePeriodsWithBlackHoleActive g 4000) - 1"
    then have "i = 0 \<or> i = 1" unfolding a by auto
    then show "is_double (realTimePeriodsWithBlackHoleActive g 4000 ! i
                     - realTimePeriodsWithBlackHoleActive g 4000 ! (i + 1))"
      unfolding a using is_double_Ints[of 3980] is_double_Ints[of 15] by auto
  qed
  then have "sum_list (realTimePeriodsWithBlackHoleEffective g 4000) = 4000"
    using effective_periods_sum_to_real_time[of g 4000] by blast
  then show ?thesis using e unfolding g_def by simp
qed

text \<open>
  C5 as stated has the effective periods sum to the real time exactly. With the first black
  hole charged at phase 0.1 (interval 3600, duration 10) and a real time of 26.2, the active
  periods are 26.2 and 9.9, and the difference 26.2 - 9.9 is rounded to 16.299999999999997:
  the effective periods add up to \<open>2 powi - 49\<close> less than the real time, and their sum
  as the program would compute it is 26.199999999999996. The decimal numbers are the binary64
  values nearest to them.
\<close>

theorem effective_periods_rounded_counterexample:
  "realTimePeriodsWithBlackHoleEffective
       \<lparr>blackHole = (\<lambda>i. if i = 0 then
            \<lparr>intervalUpgrades = 0, powerUpgrades = 0, durationUpgrades = 0, phase = fl (1 / 10),
             active = True, activations = 0, unlocked = True\<rparr>
          else
            \<lparr>intervalUpgrades = 0, powerUpgrades = 0, durationUpgrades = 0, phase = 0,
             active = False, activations = 0, unlocked = False\<rparr>),
        blackHolePause = False, enslavedIsRunning = False\<rparr> (fl (131 / 5))
     = [(1147010530095923 / 70368744177664), (5573204538870989 / 562949953421312)]
   \<and> fl (131 / 5) - sum_list (realTimePeriodsWithBlackHoleEffective
       \<lparr>blackHole = (\<lambda>i. if i = 0 then
            \<lparr>intervalUpgrades = 0, powerUpgrades = 0, durationUpgrades = 0, phase = fl (1 / 10),
             active = True, activations = 0, unlocked = True\<rparr>
          else
            \<lparr>intervalUpgrades = 0, powerUpgrades = 0, durationUpgrades = 0, phase = 0,
             active = False, activations = 0, unlocked = False\<rparr>),
        blackHolePause = False, enslavedIsRunning = False\<rparr> (fl (131 / 5))) = 1 / 2 ^ 49
   \<and> js_sum (realTimePeriodsWithBlackHoleEffective
       \<lparr>blackHole = (\<lambda>i. if i = 0 then
            \<lparr>intervalUpgrades = 0, powerUpgrades = 0, durationUpgrades = 0, phase = fl (1 / 10),
             active = True, activations = 0, unlocked = True\<rparr>
          else
            \<lparr>intervalUpgrades = 0, powerUpgrades = 0, durationUpgrades = 0, phase = 0,
             active = False, activations = 0, unlocked = False\<rparr>),
        blackHolePause = False, enslavedIsRunning = False\<rparr> (fl (131 / 5))) < fl (131 / 5)"
proof -
  define g where "g = \<lparr>blackHole = (\<lambda>i. if i = (0::nat) then
            \<lparr>intervalUpgrades = 0, powerUpgrades = 0, durationUpgrades = 0, phase = fl (1 / 10),
             active = True, activations = 0, unlocked = True\<rparr>
          else
            \<lparr>intervalUpgrades = 0, powerUpgrades = 0, durationUpgrades = 0, phase = 0,
             active = False, activations = 0, unlocked = False\<rparr>),
        blackHolePause = False, enslavedIsRunning = False\<rparr>"
  have a: "realTimePeriodsWithBlackHoleActive g (7374644389819187 / 281474976710656) = [(7374644389819187 / 281474976710656), (5573204538870989 / 562949953421312)]"
    by (simp add: g_def chain_defs example_active_time_decimal)
  have e1_a: "((7374644389819187 / 281474976710656)::real) - (5573204538870989 / 562949953421312) = (9176084240767385 / 562949953421312)" by simp
  have e2: "fl (9176084240767385 / 562949953421312) = (1147010530095923 / 70368744177664)"
  proof -
    have "fl (9176084240767385 / 562949953421312) = of_int (round_even ((9176084240767385 / 562949953421312) / 2 powi (4 - 52))) * 2 powi (4 - 52)"
      by (rule fl_eval) (simp_all add: power_int_minus)
    also have "round_even ((9176084240767385 / 562949953421312) / 2 powi (4 - 52)) = 4588042120383692"
      by (simp add: round_even_def power_int_minus divide_simps)
    finally show ?thesis by (simp add: power_int_minus)
  qed
  have e1: "fl ((7374644389819187 / 281474976710656) - (5573204538870989 / 562949953421312)) = (1147010530095923 / 70368744177664)" unfolding e1_a e2 ..
  have e3_a: "(0::real) + (1147010530095923 / 70368744177664) = (1147010530095923 / 70368744177664)" by simp
  have e4: "fl (1147010530095923 / 70368744177664) = (1147010530095923 / 70368744177664)" using fl_dyadic[of 1147010530095923 46] by simp
  have e3: "fl (0 + (1147010530095923 / 70368744177664)) = (1147010530095923 / 70368744177664)" unfolding e3_a e4 ..
  have e5_a: "((1147010530095923 / 70368744177664)::real) + (5573204538870989 / 562949953421312) = (14749288779638373 / 562949953421312)" by simp
  have e6: "fl (14749288779638373 / 562949953421312) = (3687322194909593 / 140737488355328)"
  proof -
    have "fl (14749288779638373 / 562949953421312) = of_int (round_even ((14749288779638373 / 562949953421312) / 2 powi (4 - 52))) * 2 powi (4 - 52)"
      by (rule fl_eval) (simp_all add: power_int_minus)
    also have "round_even ((14749288779638373 / 562949953421312) / 2 powi (4 - 52)) = 7374644389819186"
      by (simp add: round_even_def power_int_minus divide_simps)
    finally show ?thesis by (simp add: power_int_minus)
  qed
  have e5: "fl ((1147010530095923 / 70368744177664) + (5573204538870989 / 562949953421312)) = (3687322194909593 / 140737488355328)" unfolding e5_a e6 ..
  have e: "realTimePeriodsWithBlackHoleEffective g (7374644389819187 / 281474976710656) = [(1147010530095923 / 70368744177664), (5573204538870989 / 562949953421312)]"
    unfolding realTimePeriodsWithBlackHoleEffective_def a by (simp add: e2 e4 e6)
  have s: "js_sum [(1147010530095923 / 70368744177664), (5573204538870989 / 562949953421312)] = (3687322194909593 / 140737488355328)"
    unfolding js_sum_def by (simp add: e2 e4 e6)
  show ?thesis unfolding fl_131_5 g_def[symmetric] e s by simp
qed

section \<open>C6: a single tick\<close>

text \<open>
  C6. For every positive total real time and every tolerance, \<open>calculateOfflineTick\<close>
  with one tick returns the total real time and the total game time over it, the quotient
  being that of the program. The search is not run: the result is there also for a tolerance
  with which the search never returns. (At a total real time of 0 the quotient of the source
  is not a finite number.)
\<close>

theorem calculateOfflineTick_single_tick:
  assumes "0 < totalRealTime"
  shows "calculateOfflineTick factor g totalRealTime 1 tolerance
         = Some (totalRealTime,
                 fl (calculateGameTimeFromRealTime g totalRealTime (calculateSpeedups factor g)
                     / totalRealTime))"
  by (simp add: calculateOfflineTick_def Let_def)

text \<open>
  C6 on a run, with tolerance 0: the rate is the binary64 value nearest to 5406 / 3616.
\<close>

theorem calculateOfflineTick_single_tick_witness:
  "calculateOfflineTick (\<lambda>b. case b of None \<Rightarrow> 1 | Some i \<Rightarrow> 180)
       \<lparr>blackHole = (\<lambda>i. if i = 0 then
            \<lparr>intervalUpgrades = 0, powerUpgrades = 0, durationUpgrades = 0, phase = 0,
             active = False, activations = 0, unlocked = True\<rparr>
          else
            \<lparr>intervalUpgrades = 0, powerUpgrades = 0, durationUpgrades = 0, phase = 0,
             active = False, activations = 0, unlocked = False\<rparr>),
        blackHolePause = False, enslavedIsRunning = False\<rparr> 3616 1 0
     = Some (3616, fl (2703 / 1808))"
proof -
  have pos: "(0::real) < 3616" by simp
  show ?thesis
    unfolding calculateOfflineTick_single_tick[OF pos] example_speedups example_game_time
    by simp
qed

section \<open>C7: toggles of a call\<close>

text \<open>
  C7, as amended. Every call of \<open>updatePhase\<close> toggles the charged flag at most once,
  however many full cycles it folds in, and it toggles it once exactly when the flag after
  the call differs from the flag before.
\<close>

theorem updatePhase_at_most_one_toggle:
  "chargeToggles (snd (updatePhase showBH bh d activePeriod)) \<le> 1
   \<and> (chargeToggles (snd (updatePhase showBH bh d activePeriod)) = 1)
       = (active (fst (updatePhase showBH bh d activePeriod)) \<noteq> active d)"
  by (simp add: updatePhase_def Let_def chargeToggles_def isCharged_def)

text \<open>The amended C7 on a call that toggles: one interval elapses from phase 0.\<close>

theorem updatePhase_at_most_one_toggle_witness:
  "updatePhase True (BlackHoleState_new 0)
       \<lparr>intervalUpgrades = 0, powerUpgrades = 0, durationUpgrades = 0, phase = 0,
        active = False, activations = 0, unlocked = True\<rparr> 3600
     = (\<lparr>intervalUpgrades = 0, powerUpgrades = 0, durationUpgrades = 0, phase = 0,
        active = True, activations = 1, unlocked = True\<rparr>, [SetActive True, NotifyIsActive 1])
   \<and> chargeToggles (snd (updatePhase True (BlackHoleState_new 0)
       \<lparr>intervalUpgrades = 0, powerUpgrades = 0, durationUpgrades = 0, phase = 0,
        active = False, activations = 0, unlocked = True\<rparr> 3600)) \<le> 1"
proof -
  have "updatePhase True (BlackHoleState_new 0)
       \<lparr>intervalUpgrades = 0, powerUpgrades = 0, durationUpgrades = 0, phase = 0,
        active = False, activations = 0, unlocked = True\<rparr> 3600
     = (\<lparr>intervalUpgrades = 0, powerUpgrades = 0, durationUpgrades = 0, phase = 0,
        active = True, activations = 1, unlocked = True\<rparr>, [SetActive True, NotifyIsActive 1])"
    by (simp add: whole_defs model_defs)
  then show ?thesis
    using updatePhase_at_most_one_toggle[of True "BlackHoleState_new 0"
       "\<lparr>intervalUpgrades = 0, powerUpgrades = 0, durationUpgrades = 0, phase = 0,
        active = False, activations = 0, unlocked = True\<rparr>" 3600] by blast
qed

text \<open>
  C7 as stated asks for exactly one toggle in every call. A call that folds in one full
  cycle from phase 0 (interval 3600, duration 10, elapsed 3610) counts one activation and
  toggles nothing: the black hole is uncharged at phase 0 before and after.
\<close>

theorem updatePhase_full_cycle_no_toggle_counterexample:
  "updatePhase True (BlackHoleState_new 0)
       \<lparr>intervalUpgrades = 0, powerUpgrades = 0, durationUpgrades = 0, phase = 0,
        active = False, activations = 0, unlocked = True\<rparr> 3610
     = (\<lparr>intervalUpgrades = 0, powerUpgrades = 0, durationUpgrades = 0, phase = 0,
        active = False, activations = 1, unlocked = True\<rparr>, [])
   \<and> chargeToggles (snd (updatePhase True (BlackHoleState_new 0)
       \<lparr>intervalUpgrades = 0, powerUpgrades = 0, durationUpgrades = 0, phase = 0,
        active = False, activations = 0, unlocked = True\<rparr> 3610)) = 0"
  by (simp add: whole_defs model_defs chargeToggles_def)

section \<open>C8: a search that does not converge\<close>

text \<open>
  C8, as amended. \<open>binarySearch\<close> has no iteration ceiling and signals no error: when it
  returns, the error of the returned median, as the program computes it, is within the
  tolerance (and so is the exact difference from the target, the tolerance being a binary64
  value), and with a tolerance that is not positive it never returns.
\<close>

theorem binarySearch_returns_only_within_tolerance:
  "(\<forall>m. binarySearch start end' f target tolerance = Some m \<longrightarrow>
        \<bar>fl (f m - target)\<bar> < tolerance
        \<and> (is_double tolerance \<longrightarrow> \<bar>f m - target\<bar> < tolerance))
   \<and> (tolerance \<le> 0 \<longrightarrow> binarySearch start end' f target tolerance = None)"
  using binarySearch_within_tolerance binarySearch_never_returns abs_fl_less_double by blast

text \<open>
  The amended C8 on two runs of the search for \<open>x / 2 = 1\<close> between 0 and 8: with
  tolerance 1/8 the second median is returned, with tolerance 0 nothing is.
\<close>

theorem binarySearch_returns_only_within_tolerance_witness:
  "binarySearch 0 8 (\<lambda>x. x / 2) 1 (1 / 8) = Some 2
   \<and> \<bar>(2::real) / 2 - 1\<bar> < 1 / 8
   \<and> binarySearch 0 8 (\<lambda>x. x / 2) 1 0 = None"
proof -
  have "binarySearch 0 8 (\<lambda>x. x / 2) 1 (1 / 8) = binarySearch 0 4 (\<lambda>x. x / 2) 1 (1 / 8)"
    by (simp add: binarySearch.simps[of 0 8 "\<lambda>x. x / 2" 1 "1 / 8"] Let_def)
  also have "\<dots> = Some 2"
    by (simp add: binarySearch.simps[of 0 4 "\<lambda>x. x / 2" 1 "1 / 8"] Let_def)
  finally have s: "binarySearch 0 8 (\<lambda>x. x / 2) 1 (1 / 8) = Some 2" .
  have d: "is_double (1 / 8)" using is_double_dyadic[of 1 3] by simp
  have w: "\<bar>(\<lambda>x::real. x / 2) 2 - 1\<bar> < 1 / 8"
    using binarySearch_returns_only_within_tolerance[of 0 8 "\<lambda>x. x / 2" 1 "1 / 8"] s d by blast
  have n: "binarySearch 0 8 (\<lambda>x. x / 2) 1 0 = None"
    using binarySearch_returns_only_within_tolerance[of 0 8 "\<lambda>x. x / 2" 1 0] by simp
  show ?thesis using s w n by simp
qed

text \<open>
  C8 as stated has every search end, with a result or with an error. The offline tick of
  3616 seconds in 2 ticks with tolerance 0 does neither: it never returns.
\<close>

theorem calculateOfflineTick_zero_tolerance_counterexample:
  "calculateOfflineTick (\<lambda>b. case b of None \<Rightarrow> 1 | Some i \<Rightarrow> 180)
       \<lparr>blackHole = (\<lambda>i. if i = 0 then
            \<lparr>intervalUpgrades = 0, powerUpgrades = 0, durationUpgrades = 0, phase = 0,
             active = False, activations = 0, unlocked = True\<rparr>
          else
            \<lparr>intervalUpgrades = 0, powerUpgrades = 0, durationUpgrades = 0, phase = 0,
             active = False, activations = 0, unlocked = False\<rparr>),
        blackHolePause = False, enslavedIsRunning = False\<rparr> 3616 2 0 = None"
  by (simp add: calculateOfflineTick_def Let_def binarySearch_never_returns)

section \<open>C9: construction and the cycle length\<close>

text \<open>
  C9, as amended. The constructor checks nothing and returns a black hole for every id. The
  three black holes the program constructs have a positive duration and a positive cycle
  length, whatever the numbers of upgrades bought, and a positive interval for up to 1000
  interval upgrades. (The interval is a multiple of a power of 0.8, which the rounding takes
  to 0 once the upgrades are many.)
\<close>

theorem constructed_black_holes_have_positive_cycle:
  assumes "bh \<in> set BlackHoleState_list"
  shows "0 < duration bh d \<and> 0 < cycleLength bh d
       \<and> (intervalUpgrades d \<le> 1000 \<longrightarrow> 0 < interval bh d)"
  using BlackHoleState_list_duration[OF assms, of d] BlackHoleState_list_cycleLength[OF assms, of d]
    BlackHoleState_list_interval_positive[OF assms, of d] by auto

text \<open>The amended C9 on the third black hole of the list.\<close>

theorem constructed_black_holes_have_positive_cycle_witness:
  "BlackHoleState_new 2 \<in> set BlackHoleState_list
   \<and> 0 < duration (BlackHoleState_new 2)
       \<lparr>intervalUpgrades = 3, powerUpgrades = 0, durationUpgrades = 1, phase = 0,
        active = False, activations = 0, unlocked = True\<rparr>
   \<and> 0 < cycleLength (BlackHoleState_new 2)
       \<lparr>intervalUpgrades = 3, powerUpgrades = 0, durationUpgrades = 1, phase = 0,
        active = False, activations = 0, unlocked = True\<rparr>
   \<and> 0 < interval (BlackHoleState_new 2)
       \<lparr>intervalUpgrades = 3, powerUpgrades = 0, durationUpgrades = 1, phase = 0,
        active = False, activations = 0, unlocked = True\<rparr>"
proof -
  have h: "BlackHoleState_new 2 \<in> set BlackHoleState_list" by (simp add: BlackHoleState_list_def)
  show ?thesis using h constructed_black_holes_have_positive_cycle[OF h] by simp
qed

text \<open>
  C9 as stated has the construction fail where the cycle length is not positive. The
  constructor returns a black hole for id 4 too: its interval is 0.36 and its duration is
  \<open>- 2\<close>, so its cycle length is negative.
\<close>

theorem constructor_accepts_negative_cycle_counterexample:
  "id_bh (BlackHoleState_new 4) = 5
   \<and> interval (BlackHoleState_new 4)
       \<lparr>intervalUpgrades = 0, powerUpgrades = 0, durationUpgrades = 0, phase = 0,
        active = False, activations = 0, unlocked = False\<rparr> = fl (9 / 25)
   \<and> duration (BlackHoleState_new 4)
       \<lparr>intervalUpgrades = 0, powerUpgrades = 0, durationUpgrades = 0, phase = 0,
        active = False, activations = 0, unlocked = False\<rparr> = - 2
   \<and> cycleLength (BlackHoleState_new 4)
       \<lparr>intervalUpgrades = 0, powerUpgrades = 0, durationUpgrades = 0, phase = 0,
        active = False, activations = 0, unlocked = False\<rparr> < 0"
proof -
  define d where "d = \<lparr>intervalUpgrades = 0, powerUpgrades = 0, durationUpgrades = 0, phase = 0,
        active = False, activations = 0, unlocked = False\<rparr>"
  have i: "interval (BlackHoleState_new 4) d = fl (9 / 25)"
    by (simp add: d_def interval_def BlackHoleState_new_def js_pow_def)
  have du: "duration (BlackHoleState_new 4) d = - 2"
    by (simp add: d_def duration_def BlackHoleState_new_def js_pow_def)
  have "fl (9 / 25) \<le> 1" by (rule fl_le_double) simp_all
  then have "fl (9 / 25) + - 2 \<le> - 1" by simp
  moreover have "is_double (- 1)" using is_double_minus[OF is_double_one] by simp
  ultimately have "fl (fl (9 / 25) + - 2) \<le> - 1" by (intro fl_le_double)
  then have c: "cycleLength (BlackHoleState_new 4) d < 0" by (simp add: cycleLength_def i du)
  show ?thesis using i du c unfolding d_def by simp
qed

section \<open>C10: active periods descend\<close>




end
